theory Spec2Isabelle
  imports Complex_Main "HOL-Library.Multiset"
begin

section \<open>Cumulative elasticity curve of the notebook
  \<open>Prediction-Metrics-For-Causal-Models.ipynb\<close>\<close>

text \<open>
  The notebook defines two functions:
  \<^verbatim>\<open>
  @curry
  def elast(data, y, t):
          return (np.sum((data[t] - data[t].mean())*(data[y] - data[y].mean())) /
                  np.sum((data[t] - data[t].mean())**2))

  def cumulative_gain(dataset, prediction, y, t, min_periods=30, steps=100):
      size = dataset.shape[0]
      ordered_df = dataset.sort_values(prediction, ascending=False).reset_index(drop=True)
      n_rows = list(range(min_periods, size, size // steps)) + [size]
      return np.array([elast(ordered_df.head(rows), y, t) * (rows/size) for rows in n_rows])
  \<close>

  Conventions of the embedding.
  \<^item> A data frame is the list of its rows, of any row type \<open>'r\<close>; a column name is the
    function that reads the column from a row. Column names that the frame does not
    have are thereby excluded. The entries of a column are finite numbers (\<open>real\<close>);
    \<open>NaN\<close> and infinite entries of an input column are not modelled.
  \<^item> Arithmetic on floats is the arithmetic of the 64-bit binary floats: the exact
    result of each operation, rounded to the nearest float, ties to the even mantissa
    (\<open>round64\<close>), with overflow to the infinities, gradual underflow and \<open>NaN\<close>. The two
    zeros are one value, \<open>Fin 0\<close>.
  \<^item> The numpy and pandas functions whose result depends on choices that the
    libraries leave open, the order of rows with equal score after \<open>sort_values\<close> and
    the order of the additions of a sum, are parameters of the model (\<open>library\<close>),
    constrained by what the libraries do promise (\<open>library_contract\<close>).
  \<^item> Python's \<open>int\<close> is \<open>int\<close>; \<open>//\<close> is \<open>div\<close>, which rounds towards minus
    infinity as Python does.
  \<^item> An exception is a value \<open>Inl e\<close> of the result.
  \<^item> The source's variable \<open>size\<close> is \<open>sz\<close> here (\<open>size\<close> is a constant of HOL).
\<close>

subsection \<open>Exceptions\<close>

text \<open>
  \<open>ZeroDivisionError\<close> and \<open>ValueError\<close> are the built-in exceptions that the
  expressions of \<open>cumulative_gain\<close> can raise. The other three are the error kinds
  that the specification names; no expression of the source constructs them.
\<close>

datatype exn =
    ZeroDivisionError
  | ValueError
  | DegenerateTreatmentError
  | InvalidConfiguration
  | EmptyDatasetError

subsection \<open>64-bit floats\<close>

datatype fl = Fin real | PInf | NInf | NaN

text \<open>Rounding a number to the nearest integer, a tie to the even one.\<close>

definition round_half_even :: "real \<Rightarrow> int" where
  "round_half_even x =
     (if x - of_int \<lfloor>x\<rfloor> < 1 / 2 then \<lfloor>x\<rfloor>
      else if 1 / 2 < x - of_int \<lfloor>x\<rfloor> then \<lfloor>x\<rfloor> + 1
      else if even \<lfloor>x\<rfloor> then \<lfloor>x\<rfloor> else \<lfloor>x\<rfloor> + 1)"

text \<open>
  The exponent of the last mantissa bit of the floats around \<open>x\<close>: 53 bits of mantissa
  from the binary exponent of \<open>x\<close> down, and no lower than \<open>2\<^sup>-\<^sup>1\<^sup>0\<^sup>7\<^sup>4\<close>, the spacing of the
  subnormal floats.
\<close>

definition ulp_exponent :: "real \<Rightarrow> int" where
  "ulp_exponent x = max \<lfloor>log 2 \<bar>x\<bar>\<rfloor> (- 1022) - 52"

text \<open>
  The float nearest to \<open>x\<close>: the nearest multiple of \<open>2 powi ulp_exponent x\<close>, and an
  infinity when that is \<open>2\<^sup>1\<^sup>0\<^sup>2\<^sup>4\<close> or beyond.
\<close>

definition round64 :: "real \<Rightarrow> fl" where
  "round64 x =
     (if x = 0 then Fin 0
      else let r = of_int (round_half_even (x / 2 powi ulp_exponent x)) * 2 powi ulp_exponent x
           in if 2 ^ 1024 \<le> \<bar>r\<bar> then (if 0 < x then PInf else NInf) else Fin r)"

text \<open>The four operations. Division by zero is no exception for numpy floats (numpy
  warns and goes on); the zero divisor of the model stands for \<open>+0.0\<close>, which is what
  a sum of squares is when it is zero.\<close>

fun float_add :: "fl \<Rightarrow> fl \<Rightarrow> fl" where
  "float_add (Fin a) (Fin b) = round64 (a + b)"
| "float_add NaN y = NaN"
| "float_add x NaN = NaN"
| "float_add PInf NInf = NaN"
| "float_add NInf PInf = NaN"
| "float_add PInf y = PInf"
| "float_add x PInf = PInf"
| "float_add NInf y = NInf"
| "float_add x NInf = NInf"

fun float_sub :: "fl \<Rightarrow> fl \<Rightarrow> fl" where
  "float_sub (Fin a) (Fin b) = round64 (a - b)"
| "float_sub NaN y = NaN"
| "float_sub x NaN = NaN"
| "float_sub PInf PInf = NaN"
| "float_sub NInf NInf = NaN"
| "float_sub PInf y = PInf"
| "float_sub x PInf = NInf"
| "float_sub NInf y = NInf"
| "float_sub x NInf = PInf"

fun float_mul :: "fl \<Rightarrow> fl \<Rightarrow> fl" where
  "float_mul (Fin a) (Fin b) = round64 (a * b)"
| "float_mul NaN y = NaN"
| "float_mul x NaN = NaN"
| "float_mul PInf (Fin b) = (if b = 0 then NaN else if 0 < b then PInf else NInf)"
| "float_mul NInf (Fin b) = (if b = 0 then NaN else if 0 < b then NInf else PInf)"
| "float_mul (Fin a) PInf = (if a = 0 then NaN else if 0 < a then PInf else NInf)"
| "float_mul (Fin a) NInf = (if a = 0 then NaN else if 0 < a then NInf else PInf)"
| "float_mul PInf PInf = PInf"
| "float_mul PInf NInf = NInf"
| "float_mul NInf PInf = NInf"
| "float_mul NInf NInf = PInf"

fun float_div :: "fl \<Rightarrow> fl \<Rightarrow> fl" where
  "float_div (Fin a) (Fin b) =
     (if b \<noteq> 0 then round64 (a / b)
      else if a = 0 then NaN
      else if 0 < a then PInf else NInf)"
| "float_div NaN y = NaN"
| "float_div x NaN = NaN"
| "float_div (Fin a) y = Fin 0"
| "float_div PInf (Fin b) = (if 0 \<le> b then PInf else NInf)"
| "float_div NInf (Fin b) = (if 0 \<le> b then NInf else PInf)"
| "float_div x y = NaN"

text \<open>The number that a float is (0 for the three special values).\<close>

fun val :: "fl \<Rightarrow> real" where
  "val (Fin a) = a"
| "val x = 0"

text \<open>\<open>on_grid e x\<close>: \<open>x\<close> is an integer multiple of \<open>2 powi e\<close>.\<close>

definition on_grid :: "int \<Rightarrow> real \<Rightarrow> bool" where
  "on_grid e x \<longleftrightarrow> x / 2 powi e \<in> \<int>"

subsection \<open>Python integers: floor division, true division, range\<close>

definition py_floordiv :: "int \<Rightarrow> int \<Rightarrow> exn + int" where
  "py_floordiv a b = (if b = 0 then Inl ZeroDivisionError else Inr (a div b))"

text \<open>
  \<open>a / b\<close> of two integers is the float nearest to the quotient. (Python raises
  \<open>OverflowError\<close> when the quotient is beyond the floats. In \<open>cumulative_gain\<close> that
  needs a prefix length of more than \<open>2\<^sup>1\<^sup>0\<^sup>2\<^sup>3\<close>, hence a range of more elements than a
  Python list holds; the model, whose lists are unbounded, returns the infinity.)
\<close>

definition py_truediv :: "int \<Rightarrow> int \<Rightarrow> exn + fl" where
  "py_truediv a b =
     (if b = 0 then Inl ZeroDivisionError
      else Inr (round64 (real_of_int a / real_of_int b)))"

text \<open>The elements of \<open>range(i, stop, step)\<close> for a positive and for a negative step.\<close>

function range_up :: "int \<Rightarrow> int \<Rightarrow> int \<Rightarrow> int list" where
  "range_up i stop step =
     (if 0 < step \<and> i < stop then i # range_up (i + step) stop step else [])"
  by pat_completeness auto
termination
  by (relation "measure (\<lambda>(i, stop, step). nat (stop - i))") auto

function range_down :: "int \<Rightarrow> int \<Rightarrow> int \<Rightarrow> int list" where
  "range_down i stop step =
     (if step < 0 \<and> stop < i then i # range_down (i + step) stop step else [])"
  by pat_completeness auto
termination
  by (relation "measure (\<lambda>(i, stop, step). nat (i - stop))") auto

declare range_up.simps [simp del] range_down.simps [simp del]

text \<open>\<open>list(range(start, stop, step))\<close>; a step of zero raises \<open>ValueError\<close>.\<close>

definition py_range :: "int \<Rightarrow> int \<Rightarrow> int \<Rightarrow> exn + int list" where
  "py_range start stop step =
     (if step = 0 then Inl ValueError
      else if 0 < step then Inr (range_up start stop step)
      else Inr (range_down start stop step))"

subsection \<open>The library functions with open choices\<close>

text \<open>
  \<^item> \<open>sort_values L prediction df\<close> is \<open>df.sort_values(prediction, ascending=False)\<close>.
    pandas sorts with numpy's quicksort by default, which is not stable: the order of
    rows with equal score is the library's choice.
  \<^item> \<open>np_sum L xs\<close> is \<open>np.sum\<close> of a column without \<open>NaN\<close>, and \<open>mean_sum L xs\<close> is the
    sum inside \<open>col.mean()\<close>. numpy adds the entries up in an order of its own
    (pairwise, in blocks), and every addition rounds.
\<close>

record 'r library =
  sort_values :: "('r \<Rightarrow> real) \<Rightarrow> 'r list \<Rightarrow> 'r list"
  np_sum :: "fl list \<Rightarrow> fl"
  mean_sum :: "fl list \<Rightarrow> fl"

text \<open>
  \<open>float_sum xs r\<close>: \<open>r\<close> is a result of adding up the floats \<open>xs\<close>, in some order and
  grouping, with float additions. The sum of no float is \<open>0.0\<close>.
\<close>

inductive float_sum :: "fl list \<Rightarrow> fl \<Rightarrow> bool" where
  empty: "float_sum [] (Fin 0)"
| single: "float_sum [x] x"
| split: "float_sum xs a \<Longrightarrow> float_sum ys b \<Longrightarrow> xs \<noteq> [] \<Longrightarrow> ys \<noteq> [] \<Longrightarrow>
          mset zs = mset xs + mset ys \<Longrightarrow> float_sum zs (float_add a b)"

text \<open>
  What the libraries promise: the sorted frame has the rows of the frame, in descending
  order of the score; a sum is a float sum of the entries.
\<close>

definition library_contract :: "'r library \<Rightarrow> bool" where
  "library_contract L \<longleftrightarrow>
     (\<forall>p df. mset (sort_values L p df) = mset df)
     \<and> (\<forall>p df. sorted_wrt (\<lambda>a b. p b \<le> p a) (sort_values L p df))
     \<and> (\<forall>xs. float_sum xs (np_sum L xs))
     \<and> (\<forall>xs. float_sum xs (mean_sum L xs))"

text \<open>
  One library that keeps the contract, for the examples: a stable sort (rows of equal
  score keep their order) and sums from left to right.
\<close>

definition left_to_right_sum :: "fl list \<Rightarrow> fl" where
  "left_to_right_sum xs = (case xs of [] \<Rightarrow> Fin 0 | x # ys \<Rightarrow> foldl float_add x ys)"

definition example_library :: "'r library" where
  "example_library =
     \<lparr>sort_values = (\<lambda>p df. rev (sort_key p (rev df))),
      np_sum = left_to_right_sum,
      mean_sum = left_to_right_sum\<rparr>"

subsection \<open>Data frames\<close>

text \<open>
  \<open>reset_index(drop=True)\<close> renumbers the row labels and leaves the rows and their
  order as they are, and \<open>head\<close> is positional, so the model has no row labels.
  \<open>head(n)\<close> is the slice \<open>[:n]\<close>: the first \<open>n\<close> rows, all rows when there are fewer,
  and for a negative \<open>n\<close> all rows except the last \<open>-n\<close> (none when there are fewer;
  the subtraction on \<open>nat\<close> stops at 0).
\<close>

definition head :: "int \<Rightarrow> 'r list \<Rightarrow> 'r list" where
  "head n df =
     (if 0 \<le> n then take (nat n) df else take (length df - nat (- n)) df)"

subsection \<open>elast\<close>

text \<open>
  \<open>col.mean()\<close> is the sum of the column divided by the number of its entries, and
  \<open>NaN\<close> for a column without entries. \<open>col - col.mean()\<close> subtracts it from every
  entry. (The number of entries is a float as it is, below \<open>2\<^sup>5\<^sup>3\<close> entries.)
\<close>

definition mean :: "'r library \<Rightarrow> real list \<Rightarrow> fl" where
  "mean L col =
     (if col = [] then NaN
      else float_div (mean_sum L (map Fin col)) (Fin (real (length col))))"

definition minus_mean :: "'r library \<Rightarrow> real list \<Rightarrow> fl list" where
  "minus_mean L col = map (\<lambda>x. float_sub (Fin x) (mean L col)) col"

text \<open>
  \<open>np.sum\<close> of a pandas column is the column's own \<open>sum\<close>, which skips \<open>NaN\<close> entries:
  it adds up the column with 0 in their place. The sum of an empty column is \<open>0.0\<close>.
\<close>

definition nansum :: "'r library \<Rightarrow> fl list \<Rightarrow> fl" where
  "nansum L col = np_sum L (map (\<lambda>x. if x = NaN then Fin 0 else x) col)"

text \<open>
  The two columns come from the same frame, so their product is entry by entry.
  \<open>d ** 2\<close> is \<open>d * d\<close>.
\<close>

definition elast :: "'r library \<Rightarrow> 'r list \<Rightarrow> ('r \<Rightarrow> real) \<Rightarrow> ('r \<Rightarrow> real) \<Rightarrow> fl" where
  "elast L data y t =
     float_div
       (nansum L (map2 float_mul (minus_mean L (map t data)) (minus_mean L (map y data))))
       (nansum L (map (\<lambda>d. float_mul d d) (minus_mean L (map t data))))"

subsection \<open>cumulative\_gain\<close>

text \<open>\<open>list(range(min_periods, size, size // steps)) + [size]\<close>\<close>

definition n_rows :: "int \<Rightarrow> int \<Rightarrow> int \<Rightarrow> exn + int list" where
  "n_rows min_periods sz steps =
     (case py_floordiv sz steps of
        Inl e \<Rightarrow> Inl e
      | Inr stride \<Rightarrow>
          (case py_range min_periods sz stride of
             Inl e \<Rightarrow> Inl e
           | Inr r \<Rightarrow> Inr (r @ [sz])))"

text \<open>One element of the comprehension:
  \<open>elast(ordered_df.head(rows), y, t) * (rows/size)\<close>.\<close>

definition gain_point ::
  "'r library \<Rightarrow> 'r list \<Rightarrow> ('r \<Rightarrow> real) \<Rightarrow> ('r \<Rightarrow> real) \<Rightarrow> int \<Rightarrow> int \<Rightarrow> exn + fl" where
  "gain_point L ordered_df y t sz rows =
     (case py_truediv rows sz of
        Inl e \<Rightarrow> Inl e
      | Inr q \<Rightarrow> Inr (float_mul (elast L (head rows ordered_df) y t) q))"

text \<open>A list comprehension evaluates its elements in order; the first exception ends it.\<close>

fun comprehension :: "('a \<Rightarrow> exn + 'b) \<Rightarrow> 'a list \<Rightarrow> exn + 'b list" where
  "comprehension f [] = Inr []"
| "comprehension f (x # xs) =
     (case f x of
        Inl e \<Rightarrow> Inl e
      | Inr v \<Rightarrow> (case comprehension f xs of Inl e \<Rightarrow> Inl e | Inr vs \<Rightarrow> Inr (v # vs)))"

definition cumulative_gain ::
  "'r library \<Rightarrow> 'r list \<Rightarrow> ('r \<Rightarrow> real) \<Rightarrow> ('r \<Rightarrow> real) \<Rightarrow> ('r \<Rightarrow> real) \<Rightarrow> int \<Rightarrow> int
     \<Rightarrow> exn + fl list" where
  "cumulative_gain L dataset prediction y t min_periods steps =
     (let sz = int (length dataset);
          ordered_df = sort_values L prediction dataset
      in case n_rows min_periods sz steps of
           Inl e \<Rightarrow> Inl e
         | Inr ks \<Rightarrow> comprehension (gain_point L ordered_df y t sz) ks)"

text \<open>The default values of the parameters \<open>min_periods\<close> and \<open>steps\<close>.\<close>

definition default_min_periods :: int where
  "default_min_periods = 30"

definition default_steps :: int where
  "default_steps = 100"

subsection \<open>The frames as objects\<close>

text \<open>
  Frames are objects, and the caller's frame is passed by reference. A store is the
  list of the frames that exist, and the address of a frame is its position. Of the
  pandas calls in \<open>cumulative_gain\<close>, \<open>shape\<close> reads a frame, and \<open>sort_values\<close>,
  \<open>reset_index\<close> (both called without \<open>inplace=True\<close>) and \<open>head\<close> each make a new
  frame and return its address. \<open>elast\<close> reads the frame it is given; the columns it
  computes are not frames.
\<close>

type_synonym 'r store = "'r list list"

definition df_shape0 :: "nat \<Rightarrow> 'r store \<Rightarrow> int" where
  "df_shape0 a s = int (length (s ! a))"

definition df_sort_values ::
  "'r library \<Rightarrow> ('r \<Rightarrow> real) \<Rightarrow> nat \<Rightarrow> 'r store \<Rightarrow> nat \<times> 'r store" where
  "df_sort_values L prediction a s = (length s, s @ [sort_values L prediction (s ! a)])"

definition df_reset_index :: "nat \<Rightarrow> 'r store \<Rightarrow> nat \<times> 'r store" where
  "df_reset_index a s = (length s, s @ [s ! a])"

definition df_head :: "int \<Rightarrow> nat \<Rightarrow> 'r store \<Rightarrow> nat \<times> 'r store" where
  "df_head n a s = (length s, s @ [head n (s ! a)])"

text \<open>
  The comprehension with the store passed along: for each \<open>rows\<close>, \<open>head\<close> makes a
  frame, \<open>elast\<close> reads it, then \<open>rows/size\<close> is computed and the two are multiplied.
\<close>

fun gain_points_in_store ::
  "'r library \<Rightarrow> nat \<Rightarrow> ('r \<Rightarrow> real) \<Rightarrow> ('r \<Rightarrow> real) \<Rightarrow> int \<Rightarrow> int list \<Rightarrow> 'r store
     \<Rightarrow> (exn + fl list) \<times> 'r store" where
  "gain_points_in_store L ordered_df y t sz [] s = (Inr [], s)"
| "gain_points_in_store L ordered_df y t sz (rows # ks) s =
     (case df_head rows ordered_df s of
        (h, s1) \<Rightarrow>
          (let e = elast L (s1 ! h) y t
           in case py_truediv rows sz of
                Inl err \<Rightarrow> (Inl err, s1)
              | Inr q \<Rightarrow>
                  (case gain_points_in_store L ordered_df y t sz ks s1 of
                     (Inl err, s2) \<Rightarrow> (Inl err, s2)
                   | (Inr vs, s2) \<Rightarrow> (Inr (float_mul e q # vs), s2))))"

text \<open>\<open>cumulative_gain\<close> called with the address of the caller's frame: the result, and
  the store after the call.\<close>

definition cumulative_gain_in_store ::
  "'r library \<Rightarrow> nat \<Rightarrow> ('r \<Rightarrow> real) \<Rightarrow> ('r \<Rightarrow> real) \<Rightarrow> ('r \<Rightarrow> real) \<Rightarrow> int \<Rightarrow> int \<Rightarrow> 'r store
     \<Rightarrow> (exn + fl list) \<times> 'r store" where
  "cumulative_gain_in_store L dataset prediction y t min_periods steps s =
     (let sz = df_shape0 dataset s
      in case df_sort_values L prediction dataset s of
           (sorted_df, s1) \<Rightarrow>
             (case df_reset_index sorted_df s1 of
                (ordered_df, s2) \<Rightarrow>
                  (case n_rows min_periods sz steps of
                     Inl e \<Rightarrow> (Inl e, s2)
                   | Inr ks \<Rightarrow> gain_points_in_store L ordered_df y t sz ks s2)))"

subsection \<open>The specification's formula for the elasticity\<close>

text \<open>
  The specification writes the elasticity of the observations \<open>obs\<close> as
  \<open>\<Sum> (t\<^sub>i - mean(t)) * (y\<^sub>i - mean(y)) / \<Sum> (t\<^sub>i - mean(t))\<^sup>2\<close>, with the population means
  of the two columns. The definitions below follow these words, in exact arithmetic
  and with the sums over the positions \<open>i\<close> of the observations; they are compared with
  \<open>elast\<close> further down.
\<close>

definition population_mean :: "('r \<Rightarrow> real) \<Rightarrow> 'r list \<Rightarrow> real" where
  "population_mean f obs = (\<Sum>i<length obs. f (obs ! i)) / real (length obs)"

definition elasticity_formula :: "'r list \<Rightarrow> ('r \<Rightarrow> real) \<Rightarrow> ('r \<Rightarrow> real) \<Rightarrow> real" where
  "elasticity_formula obs y t =
     (\<Sum>i<length obs. (t (obs ! i) - population_mean t obs) * (y (obs ! i) - population_mean y obs))
     / (\<Sum>i<length obs. (t (obs ! i) - population_mean t obs) ^ 2)"

text \<open>The rows of the examples: an outcome, a treatment and a score.\<close>

record obs =
  Y :: real
  T :: real
  score :: real

section \<open>Properties\<close>

subsection \<open>Rounding\<close>

lemma round_half_even_of_int [simp]: "round_half_even (of_int n) = n"
  by (simp add: round_half_even_def)

lemma on_gridE: "on_grid e x \<Longrightarrow> \<exists>m::int. x = of_int m * 2 powi e"
proof -
  assume "on_grid e x"
  then obtain m :: int where "x / 2 powi e = of_int m"
    unfolding on_grid_def by (auto elim: Ints_cases)
  then have "x = of_int m * 2 powi e"
    by (simp add: field_simps)
  then show ?thesis ..
qed

lemma on_gridI: "x = of_int m * 2 powi e \<Longrightarrow> on_grid e x"
  by (simp add: on_grid_def)

lemma binade_bounds:
  assumes "x \<noteq> 0"
  shows "2 powi \<lfloor>log 2 \<bar>x\<bar>\<rfloor> \<le> \<bar>x\<bar>" and "\<bar>x\<bar> < 2 powi (\<lfloor>log 2 \<bar>x\<bar>\<rfloor> + 1)"
proof -
  define k where "k = \<lfloor>log 2 \<bar>x\<bar>\<rfloor>"
  have "2 powr of_int k \<le> \<bar>x\<bar> \<and> \<bar>x\<bar> < 2 powr (of_int k + 1)"
    using assms floor_log_eq_powr_iff[of "\<bar>x\<bar>" 2 k] by (simp add: k_def)
  moreover have "(of_int k :: real) + 1 = of_int (k + 1)"
    by simp
  ultimately have "2 powr of_int k \<le> \<bar>x\<bar> \<and> \<bar>x\<bar> < 2 powr of_int (k + 1)"
    by (simp only:)
  moreover have "(2::real) powr of_int j = 2 powi j" for j
    by (rule powr_real_of_int') simp_all
  ultimately have "2 powi k \<le> \<bar>x\<bar> \<and> \<bar>x\<bar> < 2 powi (k + 1)"
    by (simp only:)
  then show "2 powi \<lfloor>log 2 \<bar>x\<bar>\<rfloor> \<le> \<bar>x\<bar>" and "\<bar>x\<bar> < 2 powi (\<lfloor>log 2 \<bar>x\<bar>\<rfloor> + 1)"
    by (simp_all add: k_def)
qed

lemma abs_less_ulp:
  assumes "x \<noteq> 0"
  shows "\<bar>x\<bar> < 2 powi (ulp_exponent x + 53)"
proof -
  have "\<bar>x\<bar> < 2 powi (\<lfloor>log 2 \<bar>x\<bar>\<rfloor> + 1)"
    using assms by (rule binade_bounds)
  also have "\<dots> \<le> 2 powi (ulp_exponent x + 53)"
    by (intro power_int_increasing) (simp_all add: ulp_exponent_def)
  finally show ?thesis .
qed

lemma ulp_exponent_le:
  assumes "x \<noteq> 0" and "\<bar>x\<bar> < 2 powi (e + 53)" and "- 1074 \<le> e"
  shows "ulp_exponent x \<le> e"
proof -
  have "2 powi \<lfloor>log 2 \<bar>x\<bar>\<rfloor> < (2::real) powi (e + 53)"
    using binade_bounds(1)[OF assms(1)] assms(2) by simp
  then have "\<lfloor>log 2 \<bar>x\<bar>\<rfloor> < e + 53"
    using power_int_increasing[of "e + 53" "\<lfloor>log 2 \<bar>x\<bar>\<rfloor>" "2::real"] by (cases "\<lfloor>log 2 \<bar>x\<bar>\<rfloor> < e + 53") simp_all
  then show ?thesis
    using assms(3) by (simp add: ulp_exponent_def)
qed

lemma ulp_exponent_ge: "- 1074 \<le> ulp_exponent x"
  by (simp add: ulp_exponent_def)

lemma round64_exact_below:
  assumes "on_grid e x" and "\<bar>x\<bar> < 2 powi (e + 53)" and "- 1074 \<le> e" and "\<bar>x\<bar> < 2 ^ 1024"
  shows "round64 x = Fin x"
proof (cases "x = 0")
  case True
  then show ?thesis by (simp add: round64_def)
next
  case False
  define u where "u = ulp_exponent x"
  have ue: "u \<le> e"
    unfolding u_def using False assms(2,3) by (rule ulp_exponent_le)
  obtain m :: int where m: "x = of_int m * 2 powi e"
    using on_gridE[OF assms(1)] by blast
  have split: "(2::real) powi e = 2 powi (e - u) * 2 powi u"
    by (simp flip: power_int_add)
  have p: "(2::real) powi (e - u) = 2 ^ nat (e - u)"
    using ue by (simp add: power_int_def)
  have "x / 2 powi u = of_int m * 2 ^ nat (e - u)"
    unfolding m split p by simp
  also have "\<dots> = of_int (m * 2 ^ nat (e - u))"
    by simp
  finally have q: "x / 2 powi u = of_int (m * 2 ^ nat (e - u))" .
  have "of_int (round_half_even (x / 2 powi u)) * 2 powi u = (x / 2 powi u) * 2 powi u"
    unfolding q round_half_even_of_int ..
  then have r: "of_int (round_half_even (x / 2 powi u)) * 2 powi u = x"
    by simp
  show ?thesis
    using False r assms(4) by (simp add: round64_def Let_def flip: u_def)
qed

lemma round64_exact:
  assumes "on_grid e x" and "\<bar>x\<bar> < 2 powi (e + 53)" and "- 1074 \<le> e" and "e \<le> 971"
  shows "round64 x = Fin x"
proof -
  have "\<bar>x\<bar> < 2 powi (e + 53)" by fact
  also have "\<dots> \<le> 2 powi 1024"
    using assms(4) by (intro power_int_increasing) simp_all
  finally have "\<bar>x\<bar> < 2 ^ 1024" by simp
  with assms(1-3) show ?thesis by (rule round64_exact_below)
qed

lemma round_half_even_small:
  assumes "\<bar>y\<bar> < 1 / 2"
  shows "round_half_even y = 0"
proof (cases "0 \<le> y")
  case True
  then have "\<lfloor>y\<rfloor> = 0" using assms by (simp add: floor_eq_iff)
  then show ?thesis using assms True by (simp add: round_half_even_def)
next
  case False
  then have "\<lfloor>y\<rfloor> = - 1" using assms by (simp add: floor_eq_iff)
  then show ?thesis using assms False by (simp add: round_half_even_def)
qed

lemma round64_underflow:
  assumes "\<bar>x\<bar> < 2 powi (- 1075)"
  shows "round64 x = Fin 0"
proof (cases "x = 0")
  case True
  then show ?thesis by (simp add: round64_def)
next
  case False
  have "ulp_exponent x \<le> - 1074"
  proof (rule ulp_exponent_le[OF False])
    have "(2::real) powi (- 1075) \<le> 2 powi (- 1074 + 53)"
      by (intro power_int_increasing) simp_all
    then show "\<bar>x\<bar> < 2 powi (- 1074 + 53)" using assms by simp
  qed simp
  then have u: "ulp_exponent x = - 1074"
    using ulp_exponent_ge[of x] by simp
  have "\<bar>x / 2 powi (- 1074)\<bar> = \<bar>x\<bar> / 2 powi (- 1074)"
    by (simp add: abs_divide)
  also have "\<dots> < 2 powi (- 1075) / 2 powi (- 1074)"
    using assms by (simp add: divide_strict_right_mono)
  also have "\<dots> = (1 / 2 :: real)"
    by (simp add: power_int_minus field_simps)
  finally have "round_half_even (x / 2 powi (- 1074)) = 0"
    by (rule round_half_even_small)
  then show ?thesis
    using False by (simp add: round64_def u)
qed

lemma round_half_even_near: "\<bar>of_int (round_half_even y) - y\<bar> \<le> 1 / 2"
  unfolding round_half_even_def by (auto simp: abs_le_iff)

lemma round64_idem:
  assumes "round64 x = Fin r"
  shows "round64 r = Fin r"
proof (cases "x = 0")
  case True
  then show ?thesis using assms by (auto simp: round64_def)
next
  case False
  define u where "u = ulp_exponent x"
  define N where "N = round_half_even (x / 2 powi u)"
  have r: "r = of_int N * 2 powi u" and fin: "\<bar>r\<bar> < 2 ^ 1024"
    using assms False by (auto simp: round64_def Let_def N_def u_def split: if_splits)
  have grid: "on_grid u r"
    unfolding r by (rule on_gridI) simp
  have "\<bar>x / 2 powi u\<bar> = \<bar>x\<bar> / 2 powi u"
    by (simp add: abs_divide)
  also have "\<dots> < 2 powi (u + 53) / 2 powi u"
    using abs_less_ulp[OF False] by (simp add: divide_strict_right_mono u_def)
  also have "\<dots> = 2 ^ 53"
    by (simp add: power_int_add)
  finally have "\<bar>x / 2 powi u\<bar> < 2 ^ 53" .
  moreover have "\<bar>real_of_int N - x / 2 powi u\<bar> \<le> 1 / 2"
    unfolding N_def by (rule round_half_even_near)
  ultimately have "\<bar>real_of_int N\<bar> < 2 ^ 53 + 1"
    by linarith
  then have "real_of_int \<bar>N\<bar> < real_of_int (2 ^ 53 + 1)"
    by simp
  then have "\<bar>N\<bar> < 2 ^ 53 + 1"
    by (simp only: of_int_less_iff)
  then have N: "\<bar>N\<bar> \<le> 2 ^ 53" by simp
  have absr: "\<bar>r\<bar> = of_int \<bar>N\<bar> * 2 powi u"
    by (simp add: r abs_mult)
  show ?thesis
  proof (cases "\<bar>N\<bar> < 2 ^ 53")
    case True
    then have "real_of_int \<bar>N\<bar> < real_of_int (2 ^ 53)"
      by (simp only: of_int_less_iff)
    then have "real_of_int \<bar>N\<bar> < 2 ^ 53"
      by simp
    then have "\<bar>r\<bar> < 2 powi (u + 53)"
      by (simp add: absr power_int_add mult.commute)
    with grid show ?thesis
      using fin ulp_exponent_ge[of x] by (intro round64_exact_below[of u]) (simp_all add: u_def)
  next
    case False
    with N have "\<bar>N\<bar> = 2 ^ 53" by simp
    then have e: "\<bar>r\<bar> = 2 powi (u + 53)"
      by (simp add: absr power_int_add mult.commute)
    have "N = 2 ^ 53 \<or> N = - (2 ^ 53)"
      using \<open>\<bar>N\<bar> = 2 ^ 53\<close> by linarith
    then obtain b :: int where b: "N = 2 * b"
      by auto
    have "r = of_int b * 2 powi (u + 1)"
      by (simp add: r b power_int_add)
    then have "on_grid (u + 1) r"
      by (rule on_gridI)
    moreover have "\<bar>r\<bar> < 2 powi (u + 1 + 53)"
      unfolding e by (intro power_int_strict_increasing) simp_all
    ultimately show ?thesis
      using fin ulp_exponent_ge[of x] by (intro round64_exact_below[of "u + 1"]) (simp_all add: u_def)
  qed
qed

lemma on_grid_add: "on_grid e a \<Longrightarrow> on_grid e b \<Longrightarrow> on_grid e (a + b)"
  by (simp add: on_grid_def add_divide_distrib)

lemma on_grid_0 [simp]: "on_grid e 0"
  by (simp add: on_grid_def)

lemma float_sum_exact:
  assumes "float_sum xs r" and "- 1074 \<le> e" and "e \<le> 971"
    and "\<forall>x \<in> set xs. \<exists>a. x = Fin a \<and> on_grid e a"
    and "(\<Sum>x\<leftarrow>xs. \<bar>val x\<bar>) < 2 powi (e + 53)"
  shows "r = Fin (\<Sum>x\<leftarrow>xs. val x) \<and> on_grid e (\<Sum>x\<leftarrow>xs. val x)"
  using assms
proof (induction rule: float_sum.induct)
  case empty
  then show ?case by simp
next
  case (single x)
  then show ?case by auto
next
  case (split xs a ys b zs)
  have sets: "set xs \<subseteq> set zs" "set ys \<subseteq> set zs"
    using split.hyps(5) by (metis mset_subset_eqD mset_subset_eq_add_left set_mset_mset subsetI,
        metis mset_subset_eqD mset_subset_eq_add_right set_mset_mset subsetI)
  have sum: "(\<Sum>x\<leftarrow>zs. f x) = (\<Sum>x\<leftarrow>xs. f x) + (\<Sum>x\<leftarrow>ys. f x)" for f :: "fl \<Rightarrow> real"
  proof -
    have "(\<Sum>x\<leftarrow>zs. f x) = sum_mset (image_mset f (mset zs))"
      by (simp flip: sum_mset_sum_list)
    also have "\<dots> = sum_mset (image_mset f (mset xs)) + sum_mset (image_mset f (mset ys))"
      by (simp add: split.hyps(5))
    finally show ?thesis by (simp flip: sum_mset_sum_list)
  qed
  have nn: "0 \<le> (\<Sum>x\<leftarrow>us. \<bar>val x\<bar>)" for us
    by (rule sum_list_nonneg) auto
  have a: "a = Fin (\<Sum>x\<leftarrow>xs. val x) \<and> on_grid e (\<Sum>x\<leftarrow>xs. val x)"
    using split.prems sets sum[of "\<lambda>x. \<bar>val x\<bar>"] nn[of ys]
    by (intro split.IH(1)) auto
  have b: "b = Fin (\<Sum>x\<leftarrow>ys. val x) \<and> on_grid e (\<Sum>x\<leftarrow>ys. val x)"
    using split.prems sets sum[of "\<lambda>x. \<bar>val x\<bar>"] nn[of xs]
    by (intro split.IH(2)) auto
  have grid: "on_grid e (\<Sum>x\<leftarrow>zs. val x)"
    unfolding sum[of val] using a b by (simp add: on_grid_add)
  have "\<bar>\<Sum>x\<leftarrow>zs. val x\<bar> \<le> (\<Sum>x\<leftarrow>zs. \<bar>val x\<bar>)"
    using sum_list_abs[of "map val zs"] by (simp add: comp_def)
  then have "\<bar>\<Sum>x\<leftarrow>zs. val x\<bar> < 2 powi (e + 53)"
    using split.prems(4) by simp
  with grid have "round64 (\<Sum>x\<leftarrow>zs. val x) = Fin (\<Sum>x\<leftarrow>zs. val x)"
    using split.prems(1,2) by (intro round64_exact[of e]) 
  then show ?case
    using a b grid by (simp add: sum[of val])
qed

subsection \<open>The contract of the libraries\<close>

lemma float_sum_Nil: "float_sum [] r \<Longrightarrow> r = Fin 0"
  by (induction "[] :: fl list" r rule: float_sum.induct) auto

lemma float_sum_foldl: "float_sum (x # ys) (foldl float_add x ys)"
proof (induction ys rule: rev_induct)
  case Nil
  show ?case by (simp add: float_sum.single)
next
  case (snoc y ys)
  have "float_sum (x # ys @ [y]) (float_add (foldl float_add x ys) y)"
    by (rule float_sum.split[OF snoc float_sum.single[of y]]) simp_all
  then show ?case by simp
qed

lemma float_sum_left_to_right: "float_sum xs (left_to_right_sum xs)"
  by (cases xs) (simp_all add: left_to_right_sum_def float_sum.empty float_sum_foldl)

lemma example_library_contract: "library_contract example_library"
proof -
  have "sorted_wrt (\<lambda>a b. p b \<le> p a) (rev (sort_key p (rev df)))" for p :: "'a \<Rightarrow> real" and df
  proof -
    have "sorted (map p (sort_key p (rev df)))"
      by (rule sorted_sort_key)
    then have "sorted_wrt (\<lambda>a b. p a \<le> p b) (sort_key p (rev df))"
      by (simp add: sorted_map)
    then show ?thesis
      by (simp add: sorted_wrt_rev)
  qed
  then show ?thesis
    by (simp add: library_contract_def example_library_def float_sum_left_to_right)
qed

lemma contract_sorted:
  "library_contract L \<Longrightarrow> sorted_wrt (\<lambda>a b. p b \<le> p a) (sort_values L p df)"
  by (simp add: library_contract_def)

lemma contract_mset: "library_contract L \<Longrightarrow> mset (sort_values L p df) = mset df"
  by (simp add: library_contract_def)

lemma contract_length: "library_contract L \<Longrightarrow> length (sort_values L p df) = length df"
  using contract_mset[of L p df] by (metis size_mset)

lemma contract_set: "library_contract L \<Longrightarrow> set (sort_values L p df) = set df"
  using contract_mset[of L p df] by (metis set_mset_mset)

lemma contract_np_sum: "library_contract L \<Longrightarrow> float_sum xs (np_sum L xs)"
  by (simp add: library_contract_def)

lemma contract_mean_sum: "library_contract L \<Longrightarrow> float_sum xs (mean_sum L xs)"
  by (simp add: library_contract_def)

text \<open>A sum of floats on a grid, small enough, is exact whatever the order.\<close>

lemma float_sum_reals_exact:
  assumes "float_sum (map Fin zs) r" and "- 1074 \<le> e" and "e \<le> 971"
    and "\<forall>z \<in> set zs. on_grid e z \<and> \<bar>z\<bar> \<le> C * 2 powi e"
    and "real (length zs) * C < 2 ^ 53"
  shows "r = Fin (sum_list zs)" and "on_grid e (sum_list zs)"
proof -
  have "(\<Sum>x\<leftarrow>map Fin zs. \<bar>val x\<bar>) = (\<Sum>z\<leftarrow>zs. \<bar>z\<bar>)"
    by (simp add: comp_def)
  also have "\<dots> \<le> (\<Sum>z\<leftarrow>zs. C * 2 powi e)"
    using assms(4) by (intro sum_list_mono) auto
  also have "\<dots> = real (length zs) * C * 2 powi e"
    by (simp add: sum_list_triv)
  also have "\<dots> < 2 ^ 53 * 2 powi e"
    using assms(5) by simp
  also have "\<dots> = 2 powi (e + 53)"
    by (simp add: power_int_add)
  finally have "(\<Sum>x\<leftarrow>map Fin zs. \<bar>val x\<bar>) < 2 powi (e + 53)" .
  moreover have "\<forall>x \<in> set (map Fin zs). \<exists>a. x = Fin a \<and> on_grid e a"
    using assms(4) by auto
  ultimately have "r = Fin (\<Sum>x\<leftarrow>map Fin zs. val x) \<and> on_grid e (\<Sum>x\<leftarrow>map Fin zs. val x)"
    using assms(1-3) by (intro float_sum_exact)
  then show "r = Fin (sum_list zs)" and "on_grid e (sum_list zs)"
    by (simp_all add: comp_def)
qed

subsection \<open>Grids\<close>

lemma on_grid_diff: "on_grid e a \<Longrightarrow> on_grid e b \<Longrightarrow> on_grid e (a - b)"
  by (simp add: on_grid_def diff_divide_distrib)

lemma on_grid_mult:
  assumes "on_grid a u" and "on_grid b v"
  shows "on_grid (a + b) (u * v)"
proof -
  have "u * v / 2 powi (a + b) = (u / 2 powi a) * (v / 2 powi b)"
    by (simp add: power_int_add)
  also have "\<dots> \<in> \<int>"
    using assms unfolding on_grid_def by (rule Ints_mult)
  finally show ?thesis
    by (simp only: on_grid_def)
qed

subsection \<open>The sums of \<open>elast\<close> without rounding\<close>

lemma sum_list_population_mean:
  "sum_list (map f obs) / real (length obs) = population_mean f obs"
  by (simp add: population_mean_def sum_list_sum_nth atLeast0LessThan)

lemma abs_population_mean_le:
  assumes "obs \<noteq> []" and "\<forall>r \<in> set obs. \<bar>f r\<bar> \<le> c"
  shows "\<bar>population_mean f obs\<bar> \<le> c"
proof -
  have "\<bar>sum_list (map f obs)\<bar> \<le> (\<Sum>r\<leftarrow>obs. \<bar>f r\<bar>)"
    using sum_list_abs[of "map f obs"] by (simp add: comp_def)
  also have "\<dots> \<le> (\<Sum>r\<leftarrow>obs. c)"
    using assms(2) by (intro sum_list_mono) auto
  also have "\<dots> = real (length obs) * c"
    by (simp add: sum_list_triv)
  finally have "\<bar>sum_list (map f obs)\<bar> / real (length obs) \<le> c"
    using assms(1) by (simp add: field_simps)
  then show ?thesis
    by (simp flip: sum_list_population_mean)
qed

lemma mean_exact:
  assumes "library_contract L" and "obs \<noteq> []" and "- 1074 \<le> e" and "e \<le> 971"
    and "\<forall>r \<in> set obs. on_grid e (f r) \<and> \<bar>f r\<bar> \<le> C * 2 powi e"
    and "on_grid e (population_mean f obs)"
    and "real (length obs) * C < 2 ^ 53"
  shows "mean L (map f obs) = Fin (population_mean f obs)"
proof -
  have "mean_sum L (map Fin (map f obs)) = Fin (sum_list (map f obs))"
    using contract_mean_sum[OF assms(1)] assms(3,4,5,7)
    by (intro float_sum_reals_exact(1)[of _ _ e C]) auto
  then have m: "mean L (map f obs) = round64 (population_mean f obs)"
    using assms(2) by (simp add: mean_def sum_list_population_mean)
  obtain r where "r \<in> set obs"
    using assms(2) by (cases obs) auto
  then have "0 \<le> C * 2 powi e"
    using assms(5) by (metis abs_ge_zero order_trans)
  moreover have "(0::real) < 2 powi e"
    by simp
  ultimately have C: "0 \<le> C"
    by (simp add: zero_le_mult_iff)
  have "1 \<le> real (length obs)"
    using assms(2) by (cases obs) auto
  then have "C \<le> real (length obs) * C"
    using C by (simp add: mult_le_cancel_right1)
  then have "C < 2 ^ 53"
    using assms(7) by simp
  have "\<bar>population_mean f obs\<bar> \<le> C * 2 powi e"
    using assms(2,5) by (intro abs_population_mean_le) auto
  also have "\<dots> < 2 ^ 53 * 2 powi e"
    using \<open>C < 2 ^ 53\<close> by simp
  also have "\<dots> = 2 powi (e + 53)"
    by (simp add: power_int_add)
  finally have "round64 (population_mean f obs) = Fin (population_mean f obs)"
    using assms(3,4,6) by (intro round64_exact[of e])
  with m show ?thesis by simp
qed

lemma minus_mean_exact:
  assumes "library_contract L" and "obs \<noteq> []" and "- 1074 \<le> e" and "e \<le> 971"
    and "\<forall>r \<in> set obs. on_grid e (f r) \<and> \<bar>f r\<bar> \<le> C * 2 powi e"
    and "on_grid e (population_mean f obs)"
    and "real (length obs) * C < 2 ^ 53" and "2 * C < 2 ^ 53"
  shows "minus_mean L (map f obs) = map (\<lambda>r. Fin (f r - population_mean f obs)) obs"
proof -
  have m: "mean L (map f obs) = Fin (population_mean f obs)"
    using assms(1-7) by (rule mean_exact)
  have "round64 (f r - population_mean f obs) = Fin (f r - population_mean f obs)"
    if r: "r \<in> set obs" for r
  proof (rule round64_exact[of e])
    show "on_grid e (f r - population_mean f obs)"
      using assms(5,6) r by (simp add: on_grid_diff)
    have "\<bar>population_mean f obs\<bar> \<le> C * 2 powi e"
      using assms(2,5) by (intro abs_population_mean_le) auto
    moreover have "\<bar>f r\<bar> \<le> C * 2 powi e"
      using assms(5) r by simp
    ultimately have "\<bar>f r - population_mean f obs\<bar> \<le> 2 * C * 2 powi e"
      by linarith
    also have "\<dots> < 2 ^ 53 * 2 powi e"
      using assms(8) by simp
    also have "\<dots> = 2 powi (e + 53)"
      by (simp add: power_int_add)
    finally show "\<bar>f r - population_mean f obs\<bar> < 2 powi (e + 53)" .
  qed (use assms(3,4) in simp_all)
  then show ?thesis
    by (simp add: minus_mean_def m)
qed

lemma abs_minus_mean_le:
  assumes "obs \<noteq> []" and "\<forall>r \<in> set obs. \<bar>f r\<bar> \<le> c" and "r \<in> set obs"
  shows "\<bar>f r - population_mean f obs\<bar> \<le> 2 * c"
  using abs_population_mean_le[OF assms(1,2)] assms(2,3) by (auto simp: abs_le_iff) 

lemma nansum_Fin: "nansum L (map Fin zs) = np_sum L (map Fin zs)"
  by (simp add: nansum_def comp_def)

lemma numerator_eq:
  "(\<Sum>r\<leftarrow>obs. (t r - population_mean t obs) * (y r - population_mean y obs)) =
     (\<Sum>i<length obs. (t (obs ! i) - population_mean t obs) * (y (obs ! i) - population_mean y obs))"
  by (simp add: sum_list_sum_nth atLeast0LessThan)

lemma denominator_eq:
  "(\<Sum>r\<leftarrow>obs. (t r - population_mean t obs) * (t r - population_mean t obs)) =
     (\<Sum>i<length obs. (t (obs ! i) - population_mean t obs) ^ 2)"
  by (simp add: sum_list_sum_nth atLeast0LessThan power2_eq_square)

lemma denominator_zero_iff:
  "(\<Sum>i<length obs. (t (obs ! i) - population_mean t obs) ^ 2) = 0
     \<longleftrightarrow> (\<forall>a \<in> set obs. t a = population_mean t obs)"
proof -
  have "(\<Sum>i<length obs. (t (obs ! i) - population_mean t obs) ^ 2) = 0
     \<longleftrightarrow> (\<forall>i \<in> {..<length obs}. (t (obs ! i) - population_mean t obs) ^ 2 = 0)"
    by (rule sum_nonneg_eq_0_iff) auto
  also have "\<dots> \<longleftrightarrow> (\<forall>a \<in> set obs. t a = population_mean t obs)"
    by (auto simp: all_set_conv_all_nth)
  finally show ?thesis .
qed

text \<open>
  When the two columns and their means lie on grids and are small enough for the
  53 bits of a mantissa, no operation of \<open>elast\<close> before the division rounds.
\<close>

lemma elast_sums_exact:
  assumes L: "library_contract L" and ne: "obs \<noteq> []"
    and a: "- 537 \<le> a" "a \<le> 485" and b: "- 537 \<le> b" "b \<le> 485"
    and t: "\<forall>r \<in> set obs. on_grid a (t r) \<and> \<bar>t r\<bar> \<le> B * 2 powi a"
    and y: "\<forall>r \<in> set obs. on_grid b (y r) \<and> \<bar>y r\<bar> \<le> B * 2 powi b"
    and mt: "on_grid a (population_mean t obs)" and my: "on_grid b (population_mean y obs)"
    and B: "1 \<le> B" "real (length obs) * (4 * B\<^sup>2) < 2 ^ 53"
  shows "elast L obs y t =
     float_div
       (Fin (\<Sum>i<length obs. (t (obs ! i) - population_mean t obs)
                               * (y (obs ! i) - population_mean y obs)))
       (Fin (\<Sum>i<length obs. (t (obs ! i) - population_mean t obs) ^ 2))"
proof -
  define dt where "dt = (\<lambda>r. t r - population_mean t obs)"
  define dy where "dy = (\<lambda>r. y r - population_mean y obs)"
  have n1: "1 \<le> real (length obs)"
    using ne by (cases obs) auto
  have B2: "B \<le> B\<^sup>2"
    using B(1) by (simp add: power2_eq_square)
  have "real (length obs) * B \<le> real (length obs) * (4 * B\<^sup>2)"
    using B2 B(1) by (intro mult_left_mono) auto
  then have nB: "real (length obs) * B < 2 ^ 53"
    using B(2) by simp
  have "4 * B\<^sup>2 \<le> real (length obs) * (4 * B\<^sup>2)"
    using n1 by (simp add: mult_le_cancel_right1)
  then have B4: "4 * B\<^sup>2 < 2 ^ 53"
    using B(2) by simp
  then have B1: "2 * B < 2 ^ 53"
    using B2 B(1) by linarith
  have mmt: "minus_mean L (map t obs) = map (\<lambda>r. Fin (dt r)) obs"
    unfolding dt_def using L ne a t mt nB B1 by (intro minus_mean_exact[of _ _ a _ B]) auto
  have mmy: "minus_mean L (map y obs) = map (\<lambda>r. Fin (dy r)) obs"
    unfolding dy_def using L ne b y my nB B1 by (intro minus_mean_exact[of _ _ b _ B]) auto
  have dtg: "on_grid a (dt r) \<and> \<bar>dt r\<bar> \<le> 2 * (B * 2 powi a)" if "r \<in> set obs" for r
    unfolding dt_def using that t mt abs_minus_mean_le[OF ne, of t "B * 2 powi a" r]
    by (simp add: on_grid_diff)
  have dyg: "on_grid b (dy r) \<and> \<bar>dy r\<bar> \<le> 2 * (B * 2 powi b)" if "r \<in> set obs" for r
    unfolding dy_def using that y my abs_minus_mean_le[OF ne, of y "B * 2 powi b" r]
    by (simp add: on_grid_diff)
  have prod: "on_grid (e1 + e2) (u * v) \<and> \<bar>u * v\<bar> \<le> 4 * B\<^sup>2 * 2 powi (e1 + e2)"
    if "on_grid e1 u" "\<bar>u\<bar> \<le> 2 * (B * 2 powi e1)" "on_grid e2 v" "\<bar>v\<bar> \<le> 2 * (B * 2 powi e2)"
    for u v :: real and e1 e2
  proof -
    have "\<bar>u\<bar> * \<bar>v\<bar> \<le> (2 * (B * 2 powi e1)) * (2 * (B * 2 powi e2))"
      using that(2,4) by (intro mult_mono) auto
    also have "\<dots> = 4 * B\<^sup>2 * 2 powi (e1 + e2)"
      by (simp add: power_int_add power2_eq_square)
    finally show ?thesis
      using that(1,3) by (simp add: on_grid_mult abs_mult)
  qed
  have exact: "round64 p = Fin p"
    if "on_grid e p" "\<bar>p\<bar> \<le> 4 * B\<^sup>2 * 2 powi e" "- 1074 \<le> e" "e \<le> 971" for p e
  proof (rule round64_exact[of e])
    have "4 * B\<^sup>2 * 2 powi e < 2 ^ 53 * 2 powi e"
      using B4 by (intro mult_strict_right_mono) simp_all
    with that(2) have "\<bar>p\<bar> < 2 ^ 53 * 2 powi e"
      by linarith
    also have "\<dots> = 2 powi (e + 53)"
      by (simp add: power_int_add)
    finally show "\<bar>p\<bar> < 2 powi (e + 53)" .
  qed (use that in simp_all)
  have pty: "on_grid (a + b) (dt r * dy r) \<and> \<bar>dt r * dy r\<bar> \<le> 4 * B\<^sup>2 * 2 powi (a + b)"
    if "r \<in> set obs" for r
    using prod[of a "dt r" b "dy r"] dtg[OF that] dyg[OF that] by simp
  have ptt: "on_grid (2 * a) (dt r * dt r) \<and> \<bar>dt r * dt r\<bar> \<le> 4 * B\<^sup>2 * 2 powi (2 * a)"
    if "r \<in> set obs" for r
    using prod[of a "dt r" a "dt r"] dtg[OF that] by (simp flip: mult_2)
  have "float_mul (Fin (dt r)) (Fin (dy r)) = Fin (dt r * dy r)" if "r \<in> set obs" for r
    using pty[OF that] a b by (simp add: exact[of "a + b"])
  then have num: "map2 float_mul (minus_mean L (map t obs)) (minus_mean L (map y obs))
      = map Fin (map (\<lambda>r. dt r * dy r) obs)"
    unfolding mmt mmy by (simp add: map2_map_map)
  have "float_mul (Fin (dt r)) (Fin (dt r)) = Fin (dt r * dt r)" if "r \<in> set obs" for r
    using ptt[OF that] a by (simp add: exact[of "2 * a"])
  then have den: "map (\<lambda>d. float_mul d d) (minus_mean L (map t obs))
      = map Fin (map (\<lambda>r. dt r * dt r) obs)"
    unfolding mmt by simp
  have nums: "np_sum L (map Fin (map (\<lambda>r. dt r * dy r) obs)) = Fin (\<Sum>r\<leftarrow>obs. dt r * dy r)"
    using contract_np_sum[OF L] pty a b B(2)
    by (intro float_sum_reals_exact(1)[of _ _ "a + b" "4 * B\<^sup>2"]) auto
  have dens: "np_sum L (map Fin (map (\<lambda>r. dt r * dt r) obs)) = Fin (\<Sum>r\<leftarrow>obs. dt r * dt r)"
    using contract_np_sum[OF L] ptt a B(2)
    by (intro float_sum_reals_exact(1)[of _ _ "2 * a" "4 * B\<^sup>2"]) auto
  have n: "(\<Sum>r\<leftarrow>obs. dt r * dy r) =
      (\<Sum>i<length obs. (t (obs ! i) - population_mean t obs) * (y (obs ! i) - population_mean y obs))"
    unfolding dt_def dy_def by (rule numerator_eq)
  have d: "(\<Sum>r\<leftarrow>obs. dt r * dt r) = (\<Sum>i<length obs. (t (obs ! i) - population_mean t obs) ^ 2)"
    unfolding dt_def by (rule denominator_eq)
  show ?thesis
    unfolding elast_def num den nansum_Fin nums dens n d ..
qed

subsection \<open>\<open>elast\<close> on an empty frame and on a constant treatment column\<close>

lemma np_sum_zeros:
  assumes "library_contract L"
  shows "np_sum L (map (\<lambda>r. Fin 0) obs) = Fin 0"
proof -
  have "np_sum L (map Fin (map (\<lambda>r. 0) obs)) = Fin (sum_list (map (\<lambda>r. 0) obs))"
    using contract_np_sum[OF assms]
    by (intro float_sum_reals_exact(1)[of _ _ 0 0]) auto
  then show ?thesis by (simp add: comp_def)
qed

lemma elast_Nil:
  assumes "library_contract L"
  shows "elast L [] y t = NaN"
  using np_sum_zeros[OF assms, of "[]"] by (simp add: elast_def minus_mean_def nansum_def)

lemma float_mul_zero: "float_mul (Fin 0) d = Fin 0 \<or> float_mul (Fin 0) d = NaN"
  by (cases d) (simp_all add: round64_def)

lemma elast_constant:
  assumes L: "library_contract L"
    and c: "\<forall>r \<in> set obs. t r = c"
    and e: "on_grid e c" "- 1074 \<le> e" "e \<le> 971"
    and n: "real (length obs) * \<bar>c\<bar> < 2 powi (e + 53)"
  shows "elast L obs y t = NaN"
proof (cases "obs = []")
  case True
  then show ?thesis using L by (simp add: elast_Nil)
next
  case False
  have pm: "population_mean t obs = c"
  proof -
    have "map t obs = map (\<lambda>r. c) obs"
      using c by simp
    then have "sum_list (map t obs) = sum_list (map (\<lambda>r. c) obs)"
      by (simp only:)
    then have "sum_list (map t obs) = real (length obs) * c"
      by (simp only: sum_list_triv)
    then show ?thesis
      using False by (simp flip: sum_list_population_mean)
  qed
  have "real (length obs) * (\<bar>c\<bar> / 2 powi e) < 2 ^ 53"
  proof -
    have "real (length obs) * \<bar>c\<bar> < 2 ^ 53 * 2 powi e"
      using n by (simp add: power_int_add)
    then show ?thesis
      by (simp add: field_simps)
  qed
  then have "mean L (map t obs) = Fin (population_mean t obs)"
    using L False e c by (intro mean_exact[of _ _ e _ "\<bar>c\<bar> / 2 powi e"]) (auto simp: pm)
  then have mm: "minus_mean L (map t obs) = map (\<lambda>r. Fin 0) obs"
    using c by (simp add: minus_mean_def pm round64_def)
  have len: "length (minus_mean L (map y obs)) = length obs"
    by (simp add: minus_mean_def)
  have "map (\<lambda>x. if x = NaN then Fin 0 else x) (map2 float_mul (map (\<lambda>r. Fin 0) us) ds)
      = map (\<lambda>r. Fin 0) us" if "length ds = length us" for ds and us :: "'a list"
    using that
  proof (induction us ds rule: list_induct2')
    case (4 u us d ds)
    then show ?case using float_mul_zero[of d] by auto
  qed simp_all
  from this[of "minus_mean L (map y obs)" obs] len
  have num: "nansum L (map2 float_mul (minus_mean L (map t obs)) (minus_mean L (map y obs)))
      = Fin 0"
    by (simp add: nansum_def mm np_sum_zeros[OF L])
  have den: "nansum L (map (\<lambda>d. float_mul d d) (minus_mean L (map t obs))) = Fin 0"
    by (simp add: nansum_def mm comp_def round64_def np_sum_zeros[OF L])
  show ?thesis
    by (simp add: elast_def num den)
qed

subsection \<open>The elements of a range\<close>

lemma range_up_closed:
  "0 < step \<Longrightarrow> range_up i stop step =
     map (\<lambda>k. i + int k * step) [0..<nat ((stop - i + step - 1) div step)]"
proof (induction i stop step rule: range_up.induct)
  case (1 i stop step)
  show ?case
  proof (cases "i < stop")
    case False
    have "(stop - i + step - 1) div step \<le> (step - 1) div step"
      using False 1(2) by (intro zdiv_mono1) auto
    also have "(step - 1) div step = 0"
      using 1(2) by (simp add: div_pos_pos_trivial)
    finally show ?thesis using False by (simp add: range_up.simps)
  next
    case True
    have "stop - i + step - 1 = (stop - (i + step) + step - 1) + step"
      by simp
    then have "(stop - i + step - 1) div step = (stop - (i + step) + step - 1) div step + 1"
      using 1(2) by (metis div_add_self2 less_irrefl)
    moreover have "0 \<le> (stop - (i + step) + step - 1) div step"
      using True 1(2) by (simp add: pos_imp_zdiv_nonneg_iff)
    ultimately have n: "nat ((stop - i + step - 1) div step)
        = Suc (nat ((stop - (i + step) + step - 1) div step))"
      by simp
    have "range_up i stop step = i # range_up (i + step) stop step"
      using True 1(2) by (subst range_up.simps) simp
    also have "range_up (i + step) stop step =
        map (\<lambda>k. (i + step) + int k * step) [0..<nat ((stop - (i + step) + step - 1) div step)]"
      using 1 True by simp
    finally show ?thesis
      unfolding n map_upt_Suc by (simp add: algebra_simps)
  qed
qed

lemma range_up_less: "x \<in> set (range_up i stop step) \<Longrightarrow> x < stop"
proof (induction i stop step rule: range_up.induct)
  case (1 i stop step)
  then show ?case
    by (subst (asm) (2) range_up.simps) (auto split: if_splits)
qed

lemma range_up_ge: "x \<in> set (range_up i stop step) \<Longrightarrow> i \<le> x"
proof (induction i stop step rule: range_up.induct)
  case (1 i stop step)
  then show ?case
    by (subst (asm) (2) range_up.simps) (fastforce split: if_splits)
qed

lemma range_up_increasing: "sorted_wrt (<) (range_up i stop step)"
proof (induction i stop step rule: range_up.induct)
  case (1 i stop step)
  show ?case
  proof (cases "0 < step \<and> i < stop")
    case True
    then have "range_up i stop step = i # range_up (i + step) stop step"
      by (subst range_up.simps) simp
    moreover have "\<forall>x \<in> set (range_up (i + step) stop step). i < x"
      using True range_up_ge[of _ "i + step" stop step] by fastforce
    ultimately show ?thesis using 1 True by simp
  next
    case False
    then show ?thesis by (subst range_up.simps) auto
  qed
qed

lemma range_down_greater: "x \<in> set (range_down i stop step) \<Longrightarrow> stop < x"
proof (induction i stop step rule: range_down.induct)
  case (1 i stop step)
  then show ?case
    by (subst (asm) (2) range_down.simps) (auto split: if_splits)
qed

lemma range_down_le: "x \<in> set (range_down i stop step) \<Longrightarrow> x \<le> i"
proof (induction i stop step rule: range_down.induct)
  case (1 i stop step)
  then show ?case
    by (subst (asm) (2) range_down.simps) (fastforce split: if_splits)
qed

lemma range_down_decreasing: "sorted_wrt (>) (range_down i stop step)"
proof (induction i stop step rule: range_down.induct)
  case (1 i stop step)
  show ?case
  proof (cases "step < 0 \<and> stop < i")
    case True
    then have "range_down i stop step = i # range_down (i + step) stop step"
      by (subst range_down.simps) simp
    moreover have "\<forall>x \<in> set (range_down (i + step) stop step). x < i"
      using True range_down_le[of _ "i + step" stop step] by fastforce
    ultimately show ?thesis using 1 True by simp
  next
    case False
    then show ?thesis by (subst range_down.simps) auto
  qed
qed

subsection \<open>When the prefix lengths exist\<close>

lemma n_rows_eq:
  "n_rows min_periods sz steps =
     (if steps = 0 then Inl ZeroDivisionError
      else if sz div steps = 0 then Inl ValueError
      else if 0 < sz div steps then Inr (range_up min_periods sz (sz div steps) @ [sz])
      else Inr (range_down min_periods sz (sz div steps) @ [sz]))"
  by (simp add: n_rows_def py_floordiv_def py_range_def)

lemma n_rows_Inr_iff:
  "(\<exists>ks. n_rows min_periods sz steps = Inr ks) \<longleftrightarrow> steps \<noteq> 0 \<and> sz div steps \<noteq> 0"
  by (simp add: n_rows_eq)

lemma n_rows_nonzero: "n_rows min_periods sz steps = Inr ks \<Longrightarrow> sz \<noteq> 0"
  by (auto simp: n_rows_eq split: if_splits)

lemma comprehension_total:
  "(\<And>x. x \<in> set xs \<Longrightarrow> f x = Inr (g x)) \<Longrightarrow> comprehension f xs = Inr (map g xs)"
  by (induction xs) auto

lemma gain_point_eq:
  "sz \<noteq> 0 \<Longrightarrow> gain_point L ordered_df y t sz rows =
     Inr (float_mul (elast L (head rows ordered_df) y t)
            (round64 (real_of_int rows / real_of_int sz)))"
  by (simp add: gain_point_def py_truediv_def)

lemma cumulative_gain_Inr:
  assumes "n_rows min_periods (int (length dataset)) steps = Inr ks"
  shows "cumulative_gain L dataset prediction y t min_periods steps =
           Inr (map (\<lambda>rows. float_mul
                      (elast L (head rows (sort_values L prediction dataset)) y t)
                      (round64 (real_of_int rows / real (length dataset)))) ks)"
proof -
  have "int (length dataset) \<noteq> 0"
    using assms by (rule n_rows_nonzero)
  then show ?thesis
    using assms
    by (simp add: cumulative_gain_def Let_def gain_point_eq comprehension_total)
qed

lemma cumulative_gain_Inl:
  "n_rows min_periods (int (length dataset)) steps = Inl e \<Longrightarrow>
   cumulative_gain L dataset prediction y t min_periods steps = Inl e"
  by (simp add: cumulative_gain_def Let_def)

subsection \<open>The prefix lengths are pairwise different\<close>

lemma n_rows_distinct:
  "n_rows min_periods sz steps = Inr ks \<Longrightarrow> distinct ks"
proof -
  assume a: "n_rows min_periods sz steps = Inr ks"
  have up: "distinct (range_up min_periods sz st @ [sz])" for st
    using range_up_less[of sz min_periods sz st]
      strict_sorted_iff[of "range_up min_periods sz st"] range_up_increasing[of min_periods sz st]
    by auto
  have "sorted_wrt (<) (rev (range_down min_periods sz st))" for st
    using range_down_decreasing[of min_periods sz st] by (simp add: sorted_wrt_rev)
  then have "distinct (range_down min_periods sz st)" for st
    using strict_sorted_iff[of "rev (range_down min_periods sz st)"] by simp
  then have down: "distinct (range_down min_periods sz st @ [sz])" for st
    using range_down_greater[of sz min_periods sz st] by auto
  show ?thesis
    using a up down by (auto simp: n_rows_eq split: if_splits)
qed

lemma n_rows_increasing:
  "1 \<le> sz div steps \<Longrightarrow> n_rows min_periods sz steps = Inr ks \<Longrightarrow> sorted_wrt (<) ks"
  using range_up_less[of _ min_periods sz "sz div steps"]
    range_up_increasing[of min_periods sz "sz div steps"]
  by (auto simp: n_rows_eq sorted_wrt_append split: if_splits)

lemma n_rows_last: "n_rows min_periods sz steps = Inr ks \<Longrightarrow> ks \<noteq> [] \<and> last ks = sz"
  by (auto simp: n_rows_eq split: if_splits)

subsection \<open>Values at the rows of the examples\<close>

lemma round64_small_int: "\<bar>k\<bar> < 2 ^ 53 \<Longrightarrow> round64 (of_int k) = Fin (of_int k)"
proof (rule round64_exact[of 0])
  assume "\<bar>k\<bar> < 2 ^ 53"
  then have "real_of_int \<bar>k\<bar> < real_of_int (2 ^ 53)"
    by (simp only: of_int_less_iff)
  then show "\<bar>real_of_int k\<bar> < 2 powi (0 + 53)"
    by simp
qed (simp_all add: on_grid_def)

lemma float_div_float:
  assumes "float_div a b = Fin r"
  shows "round64 r = Fin r"
proof (cases a)
  case (Fin x)
  show ?thesis
  proof (cases b)
    case (Fin y)
    with \<open>a = Fin x\<close> assms show ?thesis
      by (auto simp: round64_idem split: if_splits)
  qed (use \<open>a = Fin x\<close> assms in \<open>auto simp: round64_def\<close>)
qed (use assms in \<open>cases b; auto split: if_splits\<close>)+

lemma float_mul_one:
  assumes "\<And>r. x = Fin r \<Longrightarrow> round64 r = Fin r"
  shows "float_mul x (Fin 1) = x"
  using assms by (cases x) simp_all

lemma elast_times_one: "float_mul (elast L obs y t) (Fin 1) = elast L obs y t"
  by (rule float_mul_one) (auto simp: elast_def dest: float_div_float)

lemma sort_two_rows:
  assumes "library_contract L" and "p a < p b"
  shows "sort_values L p [a, b] = [b, a]"
proof -
  have m: "mset (sort_values L p [a, b]) = {#a, b#}"
    using contract_mset[OF assms(1), of p "[a, b]"] by (simp add: add_mset_commute)
  then have "length (sort_values L p [a, b]) = 2"
    by (metis contract_length[OF assms(1)] length_Cons list.size(3) numeral_2_eq_2)
  then obtain u v where uv: "sort_values L p [a, b] = [u, v]"
    by (metis (no_types, opaque_lifting) One_nat_def Suc_1 length_0_conv length_Suc_conv)
  with m have "(u = a \<and> v = b) \<or> (u = b \<and> v = a)"
    by (metis (no_types, lifting) add_eq_conv_ex mset.simps(2) single_eq_add_mset)
  moreover have "p v \<le> p u"
    using contract_sorted[OF assms(1), of p "[a, b]"] uv by simp
  ultimately show ?thesis
    using assms(2) uv by auto
qed

lemma elast_two_rows:
  assumes "library_contract L"
  shows "elast L [\<lparr>Y = 3, T = 2, score = 1\<rparr>, \<lparr>Y = 1, T = 1, score = 0\<rparr>] Y T = Fin 2"
proof -
  have "elast L [\<lparr>Y = 3, T = 2, score = 1\<rparr>, \<lparr>Y = 1, T = 1, score = 0\<rparr>] Y T =
      float_div (Fin 1) (Fin (1 / 2))"
    using assms
    by (subst elast_sums_exact[of L _ "- 1" 0 T 4 Y])
      (simp_all add: on_grid_def population_mean_def lessThan_Suc power2_eq_square)
  also have "\<dots> = round64 (of_int 2)"
    by simp
  also have "\<dots> = Fin 2"
    by (subst round64_small_int) simp_all
  finally show ?thesis .
qed

subsection \<open>C3: the prefix lengths\<close>

text \<open>
  Claim C3. For a dataset of \<open>sz\<close> rows with \<open>min_periods < sz\<close> and a stride
  \<open>sz // steps\<close> of at least 1, the prefix lengths that \<open>cumulative_gain\<close> evaluates are
  exactly \<open>min_periods, min_periods + stride, min_periods + 2 * stride, ...\<close>, all of
  them below \<open>sz\<close> and the next one not, followed by \<open>sz\<close>. For \<open>min_periods = 3\<close>,
  \<open>steps = 2\<close> and 10 rows they are \<open>[3, 8, 10]\<close>, and the curve has three points.
\<close>

theorem prefix_lengths:
  "(min_periods < sz \<and> 1 \<le> sz div steps \<longrightarrow>
      n_rows min_periods sz steps =
        Inr (map (\<lambda>k. min_periods + int k * (sz div steps))
               [0..<nat ((sz - min_periods + sz div steps - 1) div (sz div steps))] @ [sz])
      \<and> (\<forall>k < nat ((sz - min_periods + sz div steps - 1) div (sz div steps)).
            min_periods + int k * (sz div steps) < sz)
      \<and> sz \<le> min_periods
            + int (nat ((sz - min_periods + sz div steps - 1) div (sz div steps))) * (sz div steps))
   \<and> n_rows 3 10 2 = Inr [3, 8, 10]
   \<and> (length dataset = 10 \<longrightarrow>
        (\<exists>curve. cumulative_gain L dataset prediction y t 3 2 = Inr curve \<and> length curve = 3))"
proof (intro conjI impI)
  assume a: "min_periods < sz \<and> 1 \<le> sz div steps"
  define stride where "stride = sz div steps"
  define n where "n = nat ((sz - min_periods + stride - 1) div stride)"
  have pos: "0 < stride" using a by (simp add: stride_def)
  have steps: "steps \<noteq> 0" using a by (auto simp: stride_def)
  have r: "range_up min_periods sz stride = map (\<lambda>k. min_periods + int k * stride) [0..<n]"
    unfolding n_def using pos by (rule range_up_closed)
  show "n_rows min_periods sz steps =
        Inr (map (\<lambda>k. min_periods + int k * (sz div steps))
               [0..<nat ((sz - min_periods + sz div steps - 1) div (sz div steps))] @ [sz])"
    using pos steps r unfolding n_def stride_def by (simp add: n_rows_eq)
  show "\<forall>k < nat ((sz - min_periods + sz div steps - 1) div (sz div steps)).
            min_periods + int k * (sz div steps) < sz"
  proof (intro allI impI)
    fix k assume "k < nat ((sz - min_periods + sz div steps - 1) div (sz div steps))"
    then have "k < n" by (simp add: n_def stride_def)
    then have "min_periods + int k * stride \<in> set (range_up min_periods sz stride)"
      unfolding r by auto
    then show "min_periods + int k * (sz div steps) < sz"
      unfolding stride_def by (rule range_up_less)
  qed
  have "sz - min_periods + stride - 1 < ((sz - min_periods + stride - 1) div stride + 1) * stride"
  proof -
    define x where "x = sz - min_periods + stride - 1"
    have "stride * (x div stride) + x mod stride = x"
      by (rule mult_div_mod_eq)
    moreover have "x mod stride < stride" using pos by simp
    moreover have "(x div stride + 1) * stride = stride * (x div stride) + stride"
      by (simp add: algebra_simps)
    ultimately have "x < (x div stride + 1) * stride"
      by linarith
    then show ?thesis by (simp add: x_def)
  qed
  moreover have "0 \<le> (sz - min_periods + stride - 1) div stride"
    using pos a by (simp add: pos_imp_zdiv_nonneg_iff)
  ultimately have "sz \<le> min_periods + int n * stride"
    unfolding n_def by (simp add: algebra_simps)
  then show "sz \<le> min_periods
            + int (nat ((sz - min_periods + sz div steps - 1) div (sz div steps))) * (sz div steps)"
    by (simp add: n_def stride_def)
next
  show "n_rows 3 10 2 = Inr [3, 8, 10]"
    by (simp add: n_rows_eq range_up.simps)
next
  assume "length dataset = 10"
  then have "n_rows 3 (int (length dataset)) 2 = Inr [3, 8, 10]"
    by (simp add: n_rows_eq range_up.simps)
  from cumulative_gain_Inr[OF this]
  show "\<exists>curve. cumulative_gain L dataset prediction y t 3 2 = Inr curve \<and> length curve = 3"
    by simp
qed

theorem prefix_lengths_witness:
  "(2::int) < 7 \<and> (1::int) \<le> 7 div 3 \<and> n_rows 2 7 3 = Inr [2, 4, 6, 7] \<and> length [1, 2, 3, 4, 5, 6, 7, 8, 9, 10 :: real] = 10
   \<and> (\<exists>curve. cumulative_gain example_library [1, 2, 3, 4, 5, 6, 7, 8, 9, 10 :: real] id id id 3 2
          = Inr curve \<and> length curve = 3)"
  using prefix_lengths [of 2 7 3 "[1, 2, 3, 4, 5, 6, 7, 8, 9, 10 :: real]" example_library id id id]
  by (simp add: upt_rec)

subsection \<open>C7: fewer rows than steps\<close>

text \<open>
  Claim C7. For a non-empty dataset with fewer rows than \<open>steps\<close>, the stride
  \<open>size // steps\<close> is 0 and \<open>cumulative_gain\<close> fails with the \<open>ValueError\<close> of a range
  with step zero, whatever \<open>min_periods\<close> is; with the default \<open>steps = 100\<close> this
  happens for every non-empty dataset of fewer than 100 rows.
\<close>

theorem small_dataset_rejected:
  "(dataset \<noteq> [] \<and> int (length dataset) < steps \<longrightarrow>
      cumulative_gain L dataset prediction y t min_periods steps = Inl ValueError)
   \<and> (dataset \<noteq> [] \<and> length dataset < 100 \<longrightarrow>
      cumulative_gain L dataset prediction y t min_periods default_steps = Inl ValueError)"
proof -
  have "cumulative_gain L dataset prediction y t min_periods st = Inl ValueError"
    if "dataset \<noteq> []" and "int (length dataset) < st" for st
  proof -
    have "st \<noteq> 0" and "int (length dataset) div st = 0"
      using that by (auto simp: div_pos_pos_trivial)
    then have "n_rows min_periods (int (length dataset)) st = Inl ValueError"
      by (simp add: n_rows_eq)
    then show ?thesis by (rule cumulative_gain_Inl)
  qed
  from this[of steps] this[of default_steps] show ?thesis
    by (simp add: default_steps_def)
qed

theorem small_dataset_rejected_witness:
  "[\<lparr>Y = 1, T = 1, score = 0\<rparr>, \<lparr>Y = 3, T = 2, score = 1\<rparr>] \<noteq> []
   \<and> int (length [\<lparr>Y = 1, T = 1, score = 0\<rparr>, \<lparr>Y = 3, T = 2, score = 1\<rparr>]) < 100
   \<and> (0::int) < 1 \<and> (1::int) \<le> int (length [\<lparr>Y = 1, T = 1, score = 0\<rparr>, \<lparr>Y = 3, T = 2, score = 1\<rparr>])
   \<and> cumulative_gain example_library [\<lparr>Y = 1, T = 1, score = 0\<rparr>, \<lparr>Y = 3, T = 2, score = 1\<rparr>] score Y T 1 100
       = Inl ValueError
   \<and> cumulative_gain example_library [\<lparr>Y = 1, T = 1, score = 0\<rparr>, \<lparr>Y = 3, T = 2, score = 1\<rparr>] score Y T 1 default_steps
       = Inl ValueError"
  using small_dataset_rejected
    [of "[\<lparr>Y = 1, T = 1, score = 0\<rparr>, \<lparr>Y = 3, T = 2, score = 1\<rparr>]" 100 example_library score Y T 1]
  by simp

subsection \<open>C6: a dataset with no rows\<close>

text \<open>
  Claim C6, as amended. The claim says that \<open>cumulative_gain\<close> raises an
  \<open>EmptyDatasetError\<close> for a dataset with zero rows. The source has no such error. With
  zero rows \<open>size // steps\<close> is 0 for every \<open>steps\<close> but 0, so the call fails all the
  same, with the built-in errors of Python: \<open>ValueError\<close> (a range with step zero) when
  \<open>steps\<close> is not 0, \<open>ZeroDivisionError\<close> when it is.
\<close>

theorem empty_dataset_fails:
  "cumulative_gain L [] prediction y t min_periods steps =
     Inl (if steps = 0 then ZeroDivisionError else ValueError)"
  by (simp add: cumulative_gain_def Let_def n_rows_eq)

text \<open>
  Claim C6 as stated fails for the empty dataset and the default parameters: the error
  is \<open>ValueError\<close>, not \<open>EmptyDatasetError\<close>, whatever the library does.
\<close>

theorem empty_dataset_counterexample:
  "cumulative_gain example_library ([] :: obs list) score Y T default_min_periods default_steps = Inl ValueError
   \<and> cumulative_gain example_library ([] :: obs list) score Y T default_min_periods default_steps
       \<noteq> Inl EmptyDatasetError
   \<and> \<not> (\<exists>L :: obs library.
          cumulative_gain L [] score Y T default_min_periods default_steps = Inl EmptyDatasetError)"
  by (simp add: cumulative_gain_def Let_def n_rows_eq default_steps_def)

subsection \<open>C8: no prefix length occurs twice\<close>

text \<open>
  Claim C8, as amended. The claim says that for some inputs with a stride
  \<open>size // steps \<ge> 1\<close> that does not divide \<open>size - min_periods\<close> a prefix length occurs
  twice. It never does: the range stops before \<open>size\<close>, so the prefix lengths are
  pairwise different and end with \<open>size\<close>, and for a stride of at least 1 they are
  strictly increasing. (When the stride does not divide \<open>size - min_periods\<close>, the
  last two prefix lengths are closer than a stride; they are not equal.)
\<close>

theorem no_duplicate_prefix_length:
  "(n_rows min_periods sz steps = Inr ks \<longrightarrow> distinct ks \<and> last ks = sz)
   \<and> (1 \<le> sz div steps \<and> n_rows min_periods sz steps = Inr ks \<longrightarrow> sorted_wrt (<) ks)"
  using n_rows_distinct[of min_periods sz steps ks] n_rows_last[of min_periods sz steps ks]
    n_rows_increasing[of sz steps min_periods ks]
  by blast

theorem no_duplicate_prefix_length_witness:
  "(1::int) \<le> 10 div 3 \<and> n_rows 3 10 3 = Inr [3, 6, 9, 10] \<and> distinct [3, 6, 9, 10 :: int]
   \<and> last [3, 6, 9, 10 :: int] = 10 \<and> sorted_wrt (<) [3, 6, 9, 10 :: int]"
proof -
  have "n_rows 3 10 3 = Inr [3, 6, 9, 10]"
    by (simp add: n_rows_eq range_up.simps)
  with no_duplicate_prefix_length [of 3 10 3 "[3, 6, 9, 10]"] show ?thesis
    by simp
qed

text \<open>Claim C8 as stated fails: there are no such inputs.\<close>

theorem duplicate_prefix_length_counterexample:
  "\<not> (\<exists>sz min_periods steps ks.
         1 \<le> sz div steps \<and> \<not> (sz div steps) dvd (sz - min_periods)
         \<and> n_rows min_periods sz steps = Inr ks \<and> \<not> distinct ks)"
  using n_rows_distinct by blast

subsection \<open>C5: the configurations that fail\<close>

text \<open>
  Claim C5, as amended. The claim says that \<open>cumulative_gain\<close> raises
  \<open>InvalidConfiguration\<close> whenever \<open>steps \<le> 0\<close>, \<open>min_periods \<le> 0\<close> or
  \<open>min_periods > size\<close>. The source checks none of the three. It fails, before any point
  of the curve is computed, exactly when \<open>steps = 0\<close> (\<open>ZeroDivisionError\<close> of
  \<open>size // steps\<close>) or when \<open>steps \<noteq> 0\<close> and \<open>size // steps = 0\<close> (\<open>ValueError\<close> of the
  range); in every other configuration, whatever \<open>min_periods\<close> is and also for a
  negative \<open>steps\<close>, it returns a curve.
\<close>

theorem configuration_errors:
  "(steps = 0 \<longrightarrow>
      cumulative_gain L dataset prediction y t min_periods steps = Inl ZeroDivisionError)
   \<and> (steps \<noteq> 0 \<and> int (length dataset) div steps = 0 \<longrightarrow>
      cumulative_gain L dataset prediction y t min_periods steps = Inl ValueError)
   \<and> (steps \<noteq> 0 \<and> int (length dataset) div steps \<noteq> 0 \<longrightarrow>
      (\<exists>curve. cumulative_gain L dataset prediction y t min_periods steps = Inr curve))"
proof (intro conjI impI)
  assume "steps = 0"
  then have "n_rows min_periods (int (length dataset)) steps = Inl ZeroDivisionError"
    by (simp add: n_rows_eq)
  then show "cumulative_gain L dataset prediction y t min_periods steps = Inl ZeroDivisionError"
    by (rule cumulative_gain_Inl)
next
  assume "steps \<noteq> 0 \<and> int (length dataset) div steps = 0"
  then have "n_rows min_periods (int (length dataset)) steps = Inl ValueError"
    by (simp add: n_rows_eq)
  then show "cumulative_gain L dataset prediction y t min_periods steps = Inl ValueError"
    by (rule cumulative_gain_Inl)
next
  assume "steps \<noteq> 0 \<and> int (length dataset) div steps \<noteq> 0"
  then obtain ks where "n_rows min_periods (int (length dataset)) steps = Inr ks"
    using n_rows_Inr_iff[of min_periods "int (length dataset)" steps] by blast
  from cumulative_gain_Inr[OF this]
  show "\<exists>curve. cumulative_gain L dataset prediction y t min_periods steps = Inr curve"
    by blast
qed

text \<open>
  The curves of a frame of two rows, for every library that keeps the contract: the
  scores differ, so the order of the sorted frame is fixed, and no operation rounds.
\<close>

lemma two_rows_curves:
  assumes "library_contract L"
  shows "cumulative_gain L [\<lparr>Y = 1, T = 1, score = 0\<rparr>, \<lparr>Y = 3, T = 2, score = 1\<rparr>] score Y T 30 1
           = Inr [Fin 2]"
    and "cumulative_gain L [\<lparr>Y = 1, T = 1, score = 0\<rparr>, \<lparr>Y = 3, T = 2, score = 1\<rparr>] score Y T 0 1
           = Inr [NaN, Fin 2]"
    and "cumulative_gain L [\<lparr>Y = 1, T = 1, score = 0\<rparr>, \<lparr>Y = 3, T = 2, score = 1\<rparr>] score Y T 1 (- 1)
           = Inr [Fin 2]"
proof -
  have s: "sort_values L score [\<lparr>Y = 1, T = 1, score = 0\<rparr>, \<lparr>Y = 3, T = 2, score = 1\<rparr>]
      = [\<lparr>Y = 3, T = 2, score = 1\<rparr>, \<lparr>Y = 1, T = 1, score = 0\<rparr>]"
    using assms by (rule sort_two_rows) simp
  have one: "round64 1 = Fin 1" "round64 2 = Fin 2"
    using round64_small_int[of 1] round64_small_int[of 2] by simp_all
  have n1: "n_rows 30 (int (length [\<lparr>Y = 1, T = 1, score = 0\<rparr>, \<lparr>Y = 3, T = 2, score = 1\<rparr>])) 1
      = Inr [2]"
    by (simp add: n_rows_eq range_up.simps)
  have n2: "n_rows 0 (int (length [\<lparr>Y = 1, T = 1, score = 0\<rparr>, \<lparr>Y = 3, T = 2, score = 1\<rparr>])) 1
      = Inr [0, 2]"
    by (simp add: n_rows_eq range_up.simps)
  have n3: "n_rows 1 (int (length [\<lparr>Y = 1, T = 1, score = 0\<rparr>, \<lparr>Y = 3, T = 2, score = 1\<rparr>])) (- 1)
      = Inr [2]"
    by (simp add: n_rows_eq range_down.simps)
  show "cumulative_gain L [\<lparr>Y = 1, T = 1, score = 0\<rparr>, \<lparr>Y = 3, T = 2, score = 1\<rparr>] score Y T 30 1
           = Inr [Fin 2]"
    unfolding cumulative_gain_Inr[OF n1] s
    by (simp add: head_def elast_two_rows[OF assms] one)
  show "cumulative_gain L [\<lparr>Y = 1, T = 1, score = 0\<rparr>, \<lparr>Y = 3, T = 2, score = 1\<rparr>] score Y T 0 1
           = Inr [NaN, Fin 2]"
    unfolding cumulative_gain_Inr[OF n2] s
    by (simp add: head_def elast_two_rows[OF assms] one elast_Nil[OF assms])
  show "cumulative_gain L [\<lparr>Y = 1, T = 1, score = 0\<rparr>, \<lparr>Y = 3, T = 2, score = 1\<rparr>] score Y T 1 (- 1)
           = Inr [Fin 2]"
    unfolding cumulative_gain_Inr[OF n3] s
    by (simp add: head_def elast_two_rows[OF assms] one)
qed

theorem configuration_errors_witness:
  "cumulative_gain example_library
       [\<lparr>Y = 1, T = 1, score = 0\<rparr>, \<lparr>Y = 3, T = 2, score = 1\<rparr>] score Y T 30 0
     = Inl ZeroDivisionError
   \<and> cumulative_gain example_library
       [\<lparr>Y = 1, T = 1, score = 0\<rparr>, \<lparr>Y = 3, T = 2, score = 1\<rparr>] score Y T 30 100
     = Inl ValueError
   \<and> (\<exists>curve. cumulative_gain example_library
         [\<lparr>Y = 1, T = 1, score = 0\<rparr>, \<lparr>Y = 3, T = 2, score = 1\<rparr>] score Y T 30 1 = Inr curve)"
  using
    configuration_errors [of 0 example_library
      "[\<lparr>Y = 1, T = 1, score = 0\<rparr>, \<lparr>Y = 3, T = 2, score = 1\<rparr>]" score Y T 30]
    configuration_errors [of 100 example_library
      "[\<lparr>Y = 1, T = 1, score = 0\<rparr>, \<lparr>Y = 3, T = 2, score = 1\<rparr>]" score Y T 30]
    configuration_errors [of 1 example_library
      "[\<lparr>Y = 1, T = 1, score = 0\<rparr>, \<lparr>Y = 3, T = 2, score = 1\<rparr>]" score Y T 30]
  by simp

text \<open>
  Claim C5 as stated fails on a dataset of two rows: with \<open>min_periods = 30 > 2\<close>, with
  \<open>min_periods = 0\<close> and with \<open>steps = -1\<close> a curve is returned, and with \<open>steps = 0\<close> the
  error is \<open>ZeroDivisionError\<close>: so it is with the example library, and with every
  library that keeps the contract.
\<close>

theorem invalid_configuration_counterexample:
  "cumulative_gain example_library
       [\<lparr>Y = 1, T = 1, score = 0\<rparr>, \<lparr>Y = 3, T = 2, score = 1\<rparr>] score Y T 30 1
     = Inr [Fin 2]
   \<and> cumulative_gain example_library
       [\<lparr>Y = 1, T = 1, score = 0\<rparr>, \<lparr>Y = 3, T = 2, score = 1\<rparr>] score Y T 0 1
     = Inr [NaN, Fin 2]
   \<and> cumulative_gain example_library
       [\<lparr>Y = 1, T = 1, score = 0\<rparr>, \<lparr>Y = 3, T = 2, score = 1\<rparr>] score Y T 1 (- 1)
     = Inr [Fin 2]
   \<and> cumulative_gain example_library
       [\<lparr>Y = 1, T = 1, score = 0\<rparr>, \<lparr>Y = 3, T = 2, score = 1\<rparr>] score Y T 1 0
     = Inl ZeroDivisionError
   \<and> \<not> (\<exists>L :: obs library. library_contract L
          \<and> (cumulative_gain L
                [\<lparr>Y = 1, T = 1, score = 0\<rparr>, \<lparr>Y = 3, T = 2, score = 1\<rparr>] score Y T 30 1
                \<noteq> Inr [Fin 2]
             \<or> cumulative_gain L
                [\<lparr>Y = 1, T = 1, score = 0\<rparr>, \<lparr>Y = 3, T = 2, score = 1\<rparr>] score Y T 0 1
                \<noteq> Inr [NaN, Fin 2]
             \<or> cumulative_gain L
                [\<lparr>Y = 1, T = 1, score = 0\<rparr>, \<lparr>Y = 3, T = 2, score = 1\<rparr>] score Y T 1 (- 1)
                \<noteq> Inr [Fin 2]
             \<or> cumulative_gain L
                [\<lparr>Y = 1, T = 1, score = 0\<rparr>, \<lparr>Y = 3, T = 2, score = 1\<rparr>] score Y T 1 0
                \<noteq> Inl ZeroDivisionError))"
proof -
  have z: "cumulative_gain L
       [\<lparr>Y = 1, T = 1, score = 0\<rparr>, \<lparr>Y = 3, T = 2, score = 1\<rparr>] score Y T 1 0
     = Inl ZeroDivisionError" for L :: "obs library"
    by (simp add: cumulative_gain_def Let_def n_rows_eq)
  show ?thesis
    using two_rows_curves[OF example_library_contract] two_rows_curves z by blast
qed

subsection \<open>C10: ten rows on the line \<open>y = 2 * t\<close>\<close>

text \<open>
  Claim C10. For the ten rows with the treatment values 1 to 10 and the outcome
  \<open>y = 2 * t\<close>, \<open>elast\<close> over all rows returns exactly 2, whatever the scores \<open>sc\<close> are
  and whatever the order of the additions is: no operation rounds.
\<close>

theorem elast_noiseless_line:
  assumes "library_contract L"
  shows "elast L (map (\<lambda>i. \<lparr>Y = 2 * real i, T = real i, score = sc i\<rparr>) [1..<11]) Y T = Fin 2"
proof -
  define rows where "rows = map (\<lambda>i. \<lparr>Y = 2 * real i, T = real i, score = sc i\<rparr>) [1..<11]"
  have u: "[1..<11] = [1, 2, 3, 4, 5, 6, 7, 8, 9, 10 :: nat]"
    by (simp add: upt_rec)
  have t: "map T rows = [1, 2, 3, 4, 5, 6, 7, 8, 9, 10]"
    unfolding rows_def u by simp
  have y: "map Y rows = [2, 4, 6, 8, 10, 12, 14, 16, 18, 20]"
    unfolding rows_def u by simp
  have len: "length rows = 10" and ne: "rows \<noteq> []"
    unfolding rows_def u by simp_all
  have mt: "population_mean T rows = 11 / 2"
    by (simp flip: sum_list_population_mean add: t len)
  have my: "population_mean Y rows = 11"
    by (simp flip: sum_list_population_mean add: y len)
  have tg: "\<forall>r \<in> set rows. on_grid (- 1) (T r) \<and> \<bar>T r\<bar> \<le> 20 * 2 powi (- 1)"
    unfolding rows_def u by (simp add: on_grid_def)
  have yg: "\<forall>r \<in> set rows. on_grid 0 (Y r) \<and> \<bar>Y r\<bar> \<le> 20 * 2 powi 0"
    unfolding rows_def u by (simp add: on_grid_def)
  have num: "(\<Sum>i<length rows. (T (rows ! i) - population_mean T rows)
                               * (Y (rows ! i) - population_mean Y rows)) = 165"
  proof -
    have "(\<Sum>r\<leftarrow>rows. (T r - 11 / 2) * (Y r - 11)) = 165"
      unfolding rows_def u by simp
    then show ?thesis
      using numerator_eq[where t = T and y = Y and obs = rows] by (simp add: mt my)
  qed
  have den: "(\<Sum>i<length rows. (T (rows ! i) - population_mean T rows) ^ 2) = 165 / 2"
  proof -
    have "(\<Sum>r\<leftarrow>rows. (T r - 11 / 2) * (T r - 11 / 2)) = 165 / 2"
      unfolding rows_def u by simp
    then show ?thesis
      using denominator_eq[where t = T and obs = rows] by (simp add: mt)
  qed
  have "elast L rows Y T =
      float_div
        (Fin (\<Sum>i<length rows. (T (rows ! i) - population_mean T rows)
                                  * (Y (rows ! i) - population_mean Y rows)))
        (Fin (\<Sum>i<length rows. (T (rows ! i) - population_mean T rows) ^ 2))"
  proof (rule elast_sums_exact[of L rows "- 1" 0 T 20 Y])
    show "on_grid (- 1) (population_mean T rows)" "on_grid 0 (population_mean Y rows)"
      by (simp_all add: mt my on_grid_def)
    show "real (length rows) * (4 * 20\<^sup>2) < 2 ^ 53"
      by (simp add: len)
  qed (use assms ne tg yg in simp_all)
  then have "elast L rows Y T = float_div (Fin 165) (Fin (165 / 2))"
    by (simp only: num den)
  also have "\<dots> = round64 (of_int 2)"
    by simp
  also have "\<dots> = Fin 2"
    by (subst round64_small_int) simp_all
  finally show ?thesis
    by (simp add: rows_def)
qed

theorem elast_noiseless_line_witness:
  "library_contract (example_library :: obs library)
   \<and> elast example_library
        (map (\<lambda>i. \<lparr>Y = 2 * real i, T = real i, score = 0\<rparr>) [1..<11]) Y T = Fin 2"
  using elast_noiseless_line [OF example_library_contract, of "\<lambda>i. 0"]
  by (simp add: example_library_contract)

subsection \<open>C2: the elasticity and the covariance over the variance\<close>

text \<open>
  Claim C2, as amended. The claim says that \<open>elast\<close> returns exactly
  \<open>\<Sum> (t\<^sub>i - mean(t)) * (y\<^sub>i - mean(y)) / \<Sum> (t\<^sub>i - mean(t))\<^sup>2\<close>. The floats round. What
  holds: for a non-empty sequence of observations with at least two different treatment
  values, whose treatment values and their population mean are multiples of \<open>2\<^sup>a\<close> and
  whose outcomes and their population mean are multiples of \<open>2\<^sup>b\<close>, of magnitude at most
  \<open>B * 2\<^sup>a\<close> and \<open>B * 2\<^sup>b\<close> with \<open>4 * B\<^sup>2 * n < 2\<^sup>5\<^sup>3\<close> for the \<open>n\<close> observations (and
  \<open>-537 \<le> a, b \<le> 485\<close>), no operation before the division rounds, the denominator is
  not zero, and \<open>elast\<close> returns the float nearest to the number of the specification:
  that number itself when it is a float.
\<close>

theorem elast_formula_rounded:
  assumes "library_contract L" and "obs \<noteq> []"
    and "\<exists>r \<in> set obs. \<exists>r' \<in> set obs. t r \<noteq> t r'"
    and "- 537 \<le> a" and "a \<le> 485" and "- 537 \<le> b" and "b \<le> 485"
    and "\<forall>r \<in> set obs. on_grid a (t r) \<and> \<bar>t r\<bar> \<le> B * 2 powi a"
    and "\<forall>r \<in> set obs. on_grid b (y r) \<and> \<bar>y r\<bar> \<le> B * 2 powi b"
    and "on_grid a (population_mean t obs)" and "on_grid b (population_mean y obs)"
    and "1 \<le> B" and "real (length obs) * (4 * B\<^sup>2) < 2 ^ 53"
  shows "elast L obs y t = round64 (elasticity_formula obs y t)
    \<and> (\<Sum>i<length obs. (t (obs ! i) - population_mean t obs) ^ 2) \<noteq> 0
    \<and> (round64 (elasticity_formula obs y t) = Fin (elasticity_formula obs y t)
         \<longrightarrow> elast L obs y t = Fin (elasticity_formula obs y t))"
proof -
  have "\<not> (\<forall>r \<in> set obs. t r = population_mean t obs)"
    using assms(3) by metis
  then have nz: "(\<Sum>i<length obs. (t (obs ! i) - population_mean t obs) ^ 2) \<noteq> 0"
    by (simp add: denominator_zero_iff)
  have "elast L obs y t =
     float_div
       (Fin (\<Sum>i<length obs. (t (obs ! i) - population_mean t obs)
                               * (y (obs ! i) - population_mean y obs)))
       (Fin (\<Sum>i<length obs. (t (obs ! i) - population_mean t obs) ^ 2))"
    using assms(1,2,4-13) by (rule elast_sums_exact)
  then have "elast L obs y t = round64 (elasticity_formula obs y t)"
    using nz by (simp add: elasticity_formula_def)
  with nz show ?thesis by simp
qed

lemma formula_four_rows:
  "elasticity_formula
     [\<lparr>Y = 6, T = 3, score = 0\<rparr>, \<lparr>Y = 2, T = 1, score = 0\<rparr>,
      \<lparr>Y = 3, T = 2, score = 0\<rparr>, \<lparr>Y = 1, T = 1, score = 0\<rparr>] Y T = 24 / 11"
  "population_mean T
     [\<lparr>Y = 6, T = 3, score = 0\<rparr>, \<lparr>Y = 2, T = 1, score = 0\<rparr>,
      \<lparr>Y = 3, T = 2, score = 0\<rparr>, \<lparr>Y = 1, T = 1, score = 0\<rparr>] = 7 / 4"
  "population_mean Y
     [\<lparr>Y = 6, T = 3, score = 0\<rparr>, \<lparr>Y = 2, T = 1, score = 0\<rparr>,
      \<lparr>Y = 3, T = 2, score = 0\<rparr>, \<lparr>Y = 1, T = 1, score = 0\<rparr>] = 3"
  by (simp_all add: elasticity_formula_def population_mean_def lessThan_Suc power2_eq_square)

theorem elast_formula_rounded_witness:
  "library_contract (example_library :: obs library)
   \<and> T \<lparr>Y = 6, T = 3, score = 0\<rparr> \<noteq> T \<lparr>Y = 2, T = 1, score = 0\<rparr>
   \<and> elast example_library
        [\<lparr>Y = 6, T = 3, score = 0\<rparr>, \<lparr>Y = 2, T = 1, score = 0\<rparr>,
         \<lparr>Y = 3, T = 2, score = 0\<rparr>, \<lparr>Y = 1, T = 1, score = 0\<rparr>] Y T = round64 (24 / 11)"
proof -
  have "elast example_library
        [\<lparr>Y = 6, T = 3, score = 0\<rparr>, \<lparr>Y = 2, T = 1, score = 0\<rparr>,
         \<lparr>Y = 3, T = 2, score = 0\<rparr>, \<lparr>Y = 1, T = 1, score = 0\<rparr>] Y T
      = round64 (elasticity_formula
        [\<lparr>Y = 6, T = 3, score = 0\<rparr>, \<lparr>Y = 2, T = 1, score = 0\<rparr>,
         \<lparr>Y = 3, T = 2, score = 0\<rparr>, \<lparr>Y = 1, T = 1, score = 0\<rparr>] Y T)"
  proof (rule elast_formula_rounded[where a = "- 2" and b = 0 and B = 12, THEN conjunct1])
    show "\<exists>r \<in> set [\<lparr>Y = 6, T = 3, score = 0\<rparr>, \<lparr>Y = 2, T = 1, score = 0\<rparr>,
         \<lparr>Y = 3, T = 2, score = 0\<rparr>, \<lparr>Y = 1, T = 1, score = 0\<rparr>].
        \<exists>r' \<in> set [\<lparr>Y = 6, T = 3, score = 0\<rparr>, \<lparr>Y = 2, T = 1, score = 0\<rparr>,
         \<lparr>Y = 3, T = 2, score = 0\<rparr>, \<lparr>Y = 1, T = 1, score = 0\<rparr>]. T r \<noteq> T r'"
      by (rule bexI [where x = "\<lparr>Y = 6, T = 3, score = 0\<rparr>"],
          rule bexI [where x = "\<lparr>Y = 2, T = 1, score = 0\<rparr>"]) simp_all
  qed (simp_all add: example_library_contract formula_four_rows on_grid_def)
  then show ?thesis
    by (simp add: example_library_contract formula_four_rows)
qed

text \<open>
  Two observations with the treatment values 0 and \<open>2 * h\<close> for a power of two \<open>h\<close>
  whose square is below the smallest float: the squares of the two deviations round
  to 0, and the division of the positive numerator by the zero denominator is the
  infinity.
\<close>

lemma elast_underflow:
  assumes L: "library_contract L" and k: "- 1073 \<le> k" "k \<le> - 538"
  shows "elast L [\<lparr>Y = 0, T = 0, score = 0\<rparr>, \<lparr>Y = 1, T = 2 * 2 powi k, score = 1\<rparr>] Y T = PInf"
proof -
  define h :: real where "h = 2 powi k"
  define rows where "rows = [\<lparr>Y = 0, T = 0, score = 0\<rparr>, \<lparr>Y = 1, T = 2 * h, score = 1\<rparr>]"
  have h: "0 < h"
    by (simp add: h_def)
  have gh: "on_grid k h" "on_grid k (2 * h)"
    by (simp_all add: on_grid_def h_def)
  have half: "h / 2 = 2 powi (k - 1)"
    by (simp add: h_def power_int_diff)
  have mt: "population_mean T rows = h" and my: "population_mean Y rows = 1 / 2"
    by (simp_all add: population_mean_def rows_def lessThan_Suc)
  have "minus_mean L (map T rows) = map (\<lambda>r. Fin (T r - population_mean T rows)) rows"
  proof (rule minus_mean_exact[of L rows k T 2])
    show "\<forall>r \<in> set rows. on_grid k (T r) \<and> \<bar>T r\<bar> \<le> 2 * 2 powi k"
      using h gh by (simp add: rows_def flip: h_def)
    show "on_grid k (population_mean T rows)"
      using gh by (simp add: mt)
  qed (use L k in \<open>simp_all add: rows_def\<close>)
  then have dt: "minus_mean L (map T rows) = [Fin (- h), Fin h]"
    unfolding mt by (simp add: rows_def)
  have "minus_mean L (map Y rows) = map (\<lambda>r. Fin (Y r - population_mean Y rows)) rows"
  proof (rule minus_mean_exact[of L rows "- 1" Y 2])
    show "on_grid (- 1) (population_mean Y rows)"
      unfolding my by (simp add: on_grid_def)
  qed (use L in \<open>simp_all add: rows_def on_grid_def\<close>)
  then have dy: "minus_mean L (map Y rows) = [Fin (- (1 / 2)), Fin (1 / 2)]"
    unfolding my by (simp add: rows_def)
  have gp: "on_grid (k - 1) (h / 2)" and bp: "\<bar>h / 2\<bar> \<le> 1 * 2 powi (k - 1)"
    by (simp_all add: half on_grid_def)
  have p: "round64 (h / 2) = Fin (h / 2)"
  proof (rule round64_exact[of "k - 1"])
    have "\<bar>h / 2\<bar> = 2 powi (k - 1)"
      by (simp add: half)
    also have "\<dots> < (2::real) powi (k - 1 + 53)"
      by (intro power_int_strict_increasing) simp_all
    finally show "\<bar>h / 2\<bar> < 2 powi (k - 1 + 53)" .
  qed (use gp k in simp_all)
  have "\<bar>h * h\<bar> < 2 powi (- 1075)"
  proof -
    have "h * h = 2 powi (k + k)"
      unfolding h_def by (rule power_int_add[symmetric]) simp
    also have "\<dots> < (2::real) powi (- 1075)"
      using k by (intro power_int_strict_increasing) simp_all
    finally show ?thesis by simp
  qed
  then have sq: "round64 (h * h) = Fin 0"
    by (rule round64_underflow)
  have "np_sum L (map Fin [h / 2, h / 2]) = Fin (sum_list [h / 2, h / 2])"
    using contract_np_sum[OF L] gp bp k
    by (intro float_sum_reals_exact(1)[of _ _ "k - 1" 1]) simp_all
  then have num: "np_sum L [Fin (h / 2), Fin (h / 2)] = Fin h"
    by simp
  have den: "np_sum L [Fin 0, Fin 0] = Fin 0"
    using np_sum_zeros[OF L, of "[(), ()]"] by simp
  have "elast L rows Y T = PInf"
    using h by (simp add: elast_def dt dy nansum_def p sq num den)
  then show ?thesis
    by (simp add: rows_def h_def)
qed

lemma formula_underflow_rows:
  assumes "h \<noteq> 0"
  shows "elasticity_formula [\<lparr>Y = 0, T = 0, score = 0\<rparr>, \<lparr>Y = 1, T = 2 * h, score = 1\<rparr>] Y T
      = 1 / (2 * h)"
  using assms
  by (simp add: elasticity_formula_def population_mean_def lessThan_Suc power2_eq_square
      field_simps)

text \<open>
  Claim C2 as stated fails at two observations with the treatment values 0 and
  \<open>2\<^sup>-\<^sup>5\<^sup>4\<^sup>0\<close> (non-empty, two different treatment values, all entries floats): \<open>elast\<close>
  returns the infinity, with the example library and with every library that keeps the
  contract, and the number of the specification is \<open>2\<^sup>5\<^sup>4\<^sup>0\<close>.
\<close>

theorem elast_formula_counterexample:
  "elast example_library
     [\<lparr>Y = 0, T = 0, score = 0\<rparr>, \<lparr>Y = 1, T = 2 powi (- 540), score = 1\<rparr>] Y T = PInf
   \<and> elasticity_formula
     [\<lparr>Y = 0, T = 0, score = 0\<rparr>, \<lparr>Y = 1, T = 2 powi (- 540), score = 1\<rparr>] Y T = 2 powi 540
   \<and> \<not> (\<exists>L :: obs library. library_contract L
          \<and> elast L [\<lparr>Y = 0, T = 0, score = 0\<rparr>, \<lparr>Y = 1, T = 2 powi (- 540), score = 1\<rparr>] Y T
              \<noteq> PInf)"
proof -
  have e1: "2 * 2 powi (- 541) = (2::real) powi (- 540)"
    by simp
  have e2: "1 / (2 * 2 powi (- 541)) = (2::real) powi 540"
    by simp
  have "elast L
     [\<lparr>Y = 0, T = 0, score = 0\<rparr>, \<lparr>Y = 1, T = 2 * 2 powi (- 541), score = 1\<rparr>] Y T = PInf"
    if "library_contract L" for L :: "obs library"
    using that by (rule elast_underflow) simp_all
  then have "elast example_library
     [\<lparr>Y = 0, T = 0, score = 0\<rparr>, \<lparr>Y = 1, T = 2 powi (- 540), score = 1\<rparr>] Y T = PInf"
    and "\<not> (\<exists>L :: obs library. library_contract L
          \<and> elast L [\<lparr>Y = 0, T = 0, score = 0\<rparr>, \<lparr>Y = 1, T = 2 powi (- 540), score = 1\<rparr>] Y T
              \<noteq> PInf)"
    unfolding e1 using example_library_contract by blast+
  moreover have "elasticity_formula
     [\<lparr>Y = 0, T = 0, score = 0\<rparr>, \<lparr>Y = 1, T = 2 * 2 powi (- 541), score = 1\<rparr>] Y T
      = 1 / (2 * 2 powi (- 541))"
    by (rule formula_underflow_rows) simp
  ultimately show ?thesis
    unfolding e1 e2 by simp
qed

subsection \<open>C4: a constant treatment column\<close>

lemma head_subset: "set (head k df) \<subseteq> set df"
  by (auto simp: head_def dest: in_set_takeD)

lemma head_length: "length (head k df) \<le> length df"
  by (simp add: head_def)

lemma constant_treatment_curve:
  assumes L: "library_contract L"
    and c: "\<forall>r \<in> set obs. t r = c"
    and e: "on_grid e c" "- 1074 \<le> e" "e \<le> 971"
    and n: "real (length obs) * \<bar>c\<bar> < 2 powi (e + 53)"
    and ks: "n_rows min_periods (int (length obs)) steps = Inr ks"
  shows "cumulative_gain L obs prediction y t min_periods steps = Inr (map (\<lambda>k. NaN) ks)"
proof -
  have "elast L (head k (sort_values L prediction obs)) y t = NaN" for k
  proof (rule elast_constant[OF L _ e])
    show "\<forall>r \<in> set (head k (sort_values L prediction obs)). t r = c"
      using c head_subset[of k "sort_values L prediction obs"] contract_set[OF L, of prediction obs]
      by auto
    have "real (length (head k (sort_values L prediction obs))) \<le> real (length obs)"
      using head_length[of k "sort_values L prediction obs"] contract_length[OF L, of prediction obs]
      by simp
    then have "real (length (head k (sort_values L prediction obs))) * \<bar>c\<bar>
        \<le> real (length obs) * \<bar>c\<bar>"
      by (intro mult_right_mono) simp_all
    then show "real (length (head k (sort_values L prediction obs))) * \<bar>c\<bar> < 2 powi (e + 53)"
      using n by simp
  qed
  then show ?thesis
    unfolding cumulative_gain_Inr[OF ks] by simp
qed

text \<open>
  Claim C4, as amended. The claim says that \<open>elast\<close> signals a
  \<open>DegenerateTreatmentError\<close> when all treatment values are identical. The source has
  no such error and no check of the denominator; \<open>elast\<close> returns a float in every
  case. For a non-empty sequence whose treatment values all equal \<open>c\<close>, where \<open>c\<close> is a
  multiple of \<open>2\<^sup>e\<close> and \<open>n * |c| < 2\<^sup>e\<^sup>+\<^sup>5\<^sup>3\<close> for the \<open>n\<close> observations (any integer \<open>c\<close> with
  \<open>n * |c| < 2\<^sup>5\<^sup>3\<close>, for one), the mean of the column is \<open>c\<close> without rounding, both sums
  are zero, and \<open>elast\<close> returns \<open>NaN\<close>, the float quotient \<open>0/0\<close>; \<open>cumulative_gain\<close> on
  such a dataset returns a curve of \<open>NaN\<close> only. (For other constant columns the mean
  may round, and \<open>elast\<close> then returns what the rounded sums give.)
\<close>

theorem constant_treatment_gives_nan:
  assumes "library_contract L" and "obs \<noteq> []" and "\<forall>r \<in> set obs. t r = c"
    and "on_grid e c" and "- 1074 \<le> e" and "e \<le> 971"
    and "real (length obs) * \<bar>c\<bar> < 2 powi (e + 53)"
  shows "elast L obs y t = NaN
    \<and> (\<forall>ks. n_rows min_periods (int (length obs)) steps = Inr ks \<longrightarrow>
          cumulative_gain L obs prediction y t min_periods steps = Inr (map (\<lambda>k. NaN) ks))"
  using elast_constant[OF assms(1,3-7)] constant_treatment_curve[OF assms(1,3-7)]
  by blast

lemma constant_rows_curve:
  assumes "library_contract L"
  shows "elast L [\<lparr>Y = 1, T = 1, score = 0\<rparr>, \<lparr>Y = 2, T = 1, score = 1\<rparr>] Y T = NaN"
    and "cumulative_gain L [\<lparr>Y = 1, T = 1, score = 0\<rparr>, \<lparr>Y = 2, T = 1, score = 1\<rparr>] score Y T 1 1
       = Inr [NaN, NaN]"
proof -
  have n: "n_rows 1 (int (length [\<lparr>Y = 1, T = 1, score = 0\<rparr>, \<lparr>Y = 2, T = 1, score = 1\<rparr>])) 1
      = Inr [1, 2]"
    by (simp add: n_rows_eq range_up.simps)
  show "elast L [\<lparr>Y = 1, T = 1, score = 0\<rparr>, \<lparr>Y = 2, T = 1, score = 1\<rparr>] Y T = NaN"
    by (rule elast_constant[OF assms, of _ _ 1 0]) (simp_all add: on_grid_def)
  show "cumulative_gain L [\<lparr>Y = 1, T = 1, score = 0\<rparr>, \<lparr>Y = 2, T = 1, score = 1\<rparr>] score Y T 1 1
       = Inr [NaN, NaN]"
    using constant_treatment_curve[OF assms _ _ _ _ _ n, of T 1 0 score Y]
    by (simp add: on_grid_def)
qed

theorem constant_treatment_gives_nan_witness:
  "library_contract (example_library :: obs library)
   \<and> [\<lparr>Y = 1, T = 1, score = 0\<rparr>, \<lparr>Y = 2, T = 1, score = 1\<rparr>] \<noteq> []
   \<and> T \<lparr>Y = 1, T = 1, score = 0\<rparr> = 1 \<and> T \<lparr>Y = 2, T = 1, score = 1\<rparr> = 1
   \<and> n_rows 1 2 1 = Inr [1, 2]
   \<and> elast example_library [\<lparr>Y = 1, T = 1, score = 0\<rparr>, \<lparr>Y = 2, T = 1, score = 1\<rparr>] Y T = NaN
   \<and> cumulative_gain example_library
        [\<lparr>Y = 1, T = 1, score = 0\<rparr>, \<lparr>Y = 2, T = 1, score = 1\<rparr>] score Y T 1 1 = Inr [NaN, NaN]"
proof -
  have n: "n_rows 1 2 1 = Inr [1, 2]"
    by (simp add: n_rows_eq range_up.simps)
  have "elast example_library [\<lparr>Y = 1, T = 1, score = 0\<rparr>, \<lparr>Y = 2, T = 1, score = 1\<rparr>] Y T = NaN
    \<and> (\<forall>ks. n_rows 1 (int (length [\<lparr>Y = 1, T = 1, score = 0\<rparr>, \<lparr>Y = 2, T = 1, score = 1\<rparr>])) 1
          = Inr ks \<longrightarrow>
          cumulative_gain example_library
            [\<lparr>Y = 1, T = 1, score = 0\<rparr>, \<lparr>Y = 2, T = 1, score = 1\<rparr>] score Y T 1 1
          = Inr (map (\<lambda>k. NaN) ks))"
    by (rule constant_treatment_gives_nan[where c = 1 and e = 0])
      (simp_all add: example_library_contract on_grid_def)
  with n show ?thesis
    by (simp add: example_library_contract)
qed

text \<open>
  Claim C4 as stated fails on two rows with the treatment value 1: \<open>elast\<close> returns
  \<open>NaN\<close>, and \<open>cumulative_gain\<close> on these rows returns a curve of two \<open>NaN\<close>, no error:
  so it is with the example library, and with every library that keeps the contract.
\<close>

theorem degenerate_treatment_counterexample:
  "elast example_library [\<lparr>Y = 1, T = 1, score = 0\<rparr>, \<lparr>Y = 2, T = 1, score = 1\<rparr>] Y T = NaN
   \<and> cumulative_gain example_library
        [\<lparr>Y = 1, T = 1, score = 0\<rparr>, \<lparr>Y = 2, T = 1, score = 1\<rparr>] score Y T 1 1 = Inr [NaN, NaN]
   \<and> \<not> (\<exists>L :: obs library. library_contract L
          \<and> (elast L [\<lparr>Y = 1, T = 1, score = 0\<rparr>, \<lparr>Y = 2, T = 1, score = 1\<rparr>] Y T \<noteq> NaN
             \<or> cumulative_gain L
                  [\<lparr>Y = 1, T = 1, score = 0\<rparr>, \<lparr>Y = 2, T = 1, score = 1\<rparr>] score Y T 1 1
                \<noteq> Inr [NaN, NaN]))"
  using constant_rows_curve[OF example_library_contract] constant_rows_curve by blast

subsection \<open>C1: the points of the curve\<close>

lemma head_all: "head (int (length df)) df = df"
  by (simp add: head_def)

lemma head_take: "0 \<le> k \<Longrightarrow> head k df = take (nat k) df"
  by (simp add: head_def)

lemma head_negative: "k < 0 \<Longrightarrow> head k df = take (length df - nat (- k)) df"
  by (simp add: head_def)

text \<open>
  Claim C1. Whenever the size of the dataset and the configuration yield the prefix
  lengths \<open>ks\<close>, \<open>cumulative_gain\<close> works on the dataset sorted by the score in
  descending order (a rearrangement of its rows; the order of rows with equal score
  is the library's), and returns, for each prefix length \<open>k\<close> of \<open>ks\<close> in turn, the
  elasticity of \<open>head(k)\<close> of the sorted rows times \<open>k/size\<close>: the float product of
  the elasticity and the float quotient, which is the float nearest to \<open>e * q\<close> when the
  two are the numbers \<open>e\<close> and \<open>q\<close>, and \<open>NaN\<close> when the elasticity is. The curve is as
  long as \<open>ks\<close>, and its last value is the elasticity of the whole sorted dataset (times
  1.0, which changes nothing). \<open>head(k)\<close> is the first \<open>k\<close> rows for every \<open>k \<ge> 0\<close>; for a
  negative \<open>k\<close>, which only a negative \<open>min_periods\<close> gives, it is all rows but the last
  \<open>-k\<close>.
\<close>

theorem cumulative_gain_curve:
  assumes "library_contract L"
    and "n_rows min_periods (int (length dataset)) steps = Inr ks"
  shows "sorted_wrt (\<lambda>a b. prediction b \<le> prediction a) (sort_values L prediction dataset)
    \<and> mset (sort_values L prediction dataset) = mset dataset
    \<and> (\<exists>curve. cumulative_gain L dataset prediction y t min_periods steps = Inr curve
          \<and> length curve = length ks
          \<and> (\<forall>i < length ks. curve ! i =
                float_mul (elast L (head (ks ! i) (sort_values L prediction dataset)) y t)
                  (round64 (real_of_int (ks ! i) / real (length dataset))))
          \<and> (\<forall>i < length ks. \<forall>e q.
                elast L (head (ks ! i) (sort_values L prediction dataset)) y t = Fin e
                \<and> round64 (real_of_int (ks ! i) / real (length dataset)) = Fin q
                \<longrightarrow> curve ! i = round64 (e * q))
          \<and> (\<forall>i < length ks.
                elast L (head (ks ! i) (sort_values L prediction dataset)) y t = NaN
                \<longrightarrow> curve ! i = NaN)
          \<and> last curve = float_mul (elast L (sort_values L prediction dataset) y t) (Fin 1)
          \<and> last curve = elast L (sort_values L prediction dataset) y t)
    \<and> (\<forall>k \<in> set ks. 0 \<le> k \<longrightarrow>
          head k (sort_values L prediction dataset)
            = take (nat k) (sort_values L prediction dataset))
    \<and> (\<forall>k \<in> set ks. k < 0 \<longrightarrow>
          head k (sort_values L prediction dataset)
            = take (length dataset - nat (- k)) (sort_values L prediction dataset))"
proof -
  define ordered where "ordered = sort_values L prediction dataset"
  define point where "point = (\<lambda>k. float_mul (elast L (head k ordered) y t)
                                   (round64 (real_of_int k / real (length dataset))))"
  have len: "length ordered = length dataset"
    unfolding ordered_def using assms(1) by (rule contract_length)
  have cg: "cumulative_gain L dataset prediction y t min_periods steps = Inr (map point ks)"
    unfolding point_def ordered_def using assms(2) by (rule cumulative_gain_Inr)
  have nz: "int (length dataset) \<noteq> 0"
    using assms(2) by (rule n_rows_nonzero)
  have ks: "ks \<noteq> []" "last ks = int (length dataset)"
    using n_rows_last[OF assms(2)] by simp_all
  have one: "round64 1 = Fin 1"
    using round64_small_int[of 1] by simp
  have "head (int (length dataset)) ordered = ordered"
    using head_all[of ordered] by (simp add: len)
  then have "point (int (length dataset)) = float_mul (elast L ordered y t) (Fin 1)"
    using nz by (simp add: point_def one)
  then have l: "last (map point ks) = float_mul (elast L ordered y t) (Fin 1)"
    using ks by (simp add: last_map)
  have "\<exists>curve. cumulative_gain L dataset prediction y t min_periods steps = Inr curve
          \<and> length curve = length ks
          \<and> (\<forall>i < length ks. curve ! i =
                float_mul (elast L (head (ks ! i) ordered) y t)
                  (round64 (real_of_int (ks ! i) / real (length dataset))))
          \<and> (\<forall>i < length ks. \<forall>e q.
                elast L (head (ks ! i) ordered) y t = Fin e
                \<and> round64 (real_of_int (ks ! i) / real (length dataset)) = Fin q
                \<longrightarrow> curve ! i = round64 (e * q))
          \<and> (\<forall>i < length ks. elast L (head (ks ! i) ordered) y t = NaN \<longrightarrow> curve ! i = NaN)
          \<and> last curve = float_mul (elast L ordered y t) (Fin 1)
          \<and> last curve = elast L ordered y t"
    using cg l by (auto simp: point_def elast_times_one)
  moreover have "\<forall>k \<in> set ks. 0 \<le> k \<longrightarrow> head k ordered = take (nat k) ordered"
    by (simp add: head_take)
  moreover have "\<forall>k \<in> set ks. k < 0 \<longrightarrow>
      head k ordered = take (length dataset - nat (- k)) ordered"
    by (simp add: head_negative len)
  moreover have "sorted_wrt (\<lambda>a b. prediction b \<le> prediction a) ordered"
    unfolding ordered_def using assms(1) by (rule contract_sorted)
  moreover have "mset ordered = mset dataset"
    unfolding ordered_def using assms(1) by (rule contract_mset)
  ultimately show ?thesis
    unfolding ordered_def by blast
qed

text \<open>Four rows on the line \<open>y = 2 * t\<close>, sorted, and the first two of them.\<close>

lemma elast_line_rows:
  assumes "library_contract L"
  shows "elast L [\<lparr>Y = 6, T = 3, score = 3\<rparr>, \<lparr>Y = 2, T = 1, score = 2\<rparr>] Y T = Fin 2"
    and "elast L [\<lparr>Y = 6, T = 3, score = 3\<rparr>, \<lparr>Y = 2, T = 1, score = 2\<rparr>,
                  \<lparr>Y = 4, T = 2, score = 1\<rparr>, \<lparr>Y = 2, T = 1, score = 0\<rparr>] Y T = Fin 2"
proof -
  have two: "round64 2 = Fin 2"
    using round64_small_int[of 2] by simp
  have "elast L [\<lparr>Y = 6, T = 3, score = 3\<rparr>, \<lparr>Y = 2, T = 1, score = 2\<rparr>] Y T =
      float_div (Fin 4) (Fin 2)"
    using assms
    by (subst elast_sums_exact[of L _ 0 0 T 6 Y])
      (simp_all add: on_grid_def population_mean_def lessThan_Suc power2_eq_square)
  then show "elast L [\<lparr>Y = 6, T = 3, score = 3\<rparr>, \<lparr>Y = 2, T = 1, score = 2\<rparr>] Y T = Fin 2"
    by (simp add: two)
  have "elast L [\<lparr>Y = 6, T = 3, score = 3\<rparr>, \<lparr>Y = 2, T = 1, score = 2\<rparr>,
                  \<lparr>Y = 4, T = 2, score = 1\<rparr>, \<lparr>Y = 2, T = 1, score = 0\<rparr>] Y T =
      float_div (Fin (11 / 2)) (Fin (11 / 4))"
    using assms
    by (subst elast_sums_exact[of L _ "- 2" "- 1" T 12 Y])
      (simp_all add: on_grid_def population_mean_def lessThan_Suc power2_eq_square)
  then show "elast L [\<lparr>Y = 6, T = 3, score = 3\<rparr>, \<lparr>Y = 2, T = 1, score = 2\<rparr>,
                  \<lparr>Y = 4, T = 2, score = 1\<rparr>, \<lparr>Y = 2, T = 1, score = 0\<rparr>] Y T = Fin 2"
    by (simp add: two)
qed

theorem cumulative_gain_curve_witness:
  "library_contract (example_library :: obs library)
   \<and> n_rows 2 4 2 = Inr [2, 4]
   \<and> sort_values example_library score
        [\<lparr>Y = 2, T = 1, score = 0\<rparr>, \<lparr>Y = 4, T = 2, score = 1\<rparr>,
         \<lparr>Y = 2, T = 1, score = 2\<rparr>, \<lparr>Y = 6, T = 3, score = 3\<rparr>]
       = [\<lparr>Y = 6, T = 3, score = 3\<rparr>, \<lparr>Y = 2, T = 1, score = 2\<rparr>,
          \<lparr>Y = 4, T = 2, score = 1\<rparr>, \<lparr>Y = 2, T = 1, score = 0\<rparr>]
   \<and> cumulative_gain example_library
        [\<lparr>Y = 2, T = 1, score = 0\<rparr>, \<lparr>Y = 4, T = 2, score = 1\<rparr>,
         \<lparr>Y = 2, T = 1, score = 2\<rparr>, \<lparr>Y = 6, T = 3, score = 3\<rparr>] score Y T 2 2
       = Inr [Fin 1, Fin 2]"
proof -
  define rows where "rows = [\<lparr>Y = 2, T = 1, score = 0\<rparr>, \<lparr>Y = 4, T = 2, score = 1\<rparr>,
         \<lparr>Y = 2, T = 1, score = 2\<rparr>, \<lparr>Y = 6, T = 3, score = 3\<rparr>]"
  have n: "n_rows 2 (int (length rows)) 2 = Inr [2, 4]"
    by (simp add: rows_def n_rows_eq range_up.simps)
  have s: "sort_values example_library score rows
       = [\<lparr>Y = 6, T = 3, score = 3\<rparr>, \<lparr>Y = 2, T = 1, score = 2\<rparr>,
          \<lparr>Y = 4, T = 2, score = 1\<rparr>, \<lparr>Y = 2, T = 1, score = 0\<rparr>]"
    by (simp add: rows_def example_library_def)
  have r: "round64 (1 / 2) = Fin (1 / 2)" "round64 1 = Fin 1" "round64 2 = Fin 2"
    using round64_exact[of "- 1" "1 / 2"] round64_small_int[of 1] round64_small_int[of 2]
    by (simp_all add: on_grid_def)
  obtain curve where c: "cumulative_gain example_library rows score Y T 2 2 = Inr curve"
    and l: "length curve = length [2, 4 :: int]"
    and p: "\<forall>i < length [2, 4 :: int]. curve ! i =
                float_mul (elast example_library
                    (head ([2, 4] ! i) (sort_values example_library score rows)) Y T)
                  (round64 (real_of_int ([2, 4] ! i) / real (length rows)))"
    using cumulative_gain_curve [OF example_library_contract n, of score Y T] by blast
  have lenr: "length rows = 4"
    by (simp add: rows_def)
  have "curve ! 0 = Fin 1" and "curve ! 1 = Fin 2"
    using p by (simp_all add: s lenr head_def r elast_line_rows[OF example_library_contract])
  moreover have "curve = [curve ! 0, curve ! 1]"
    using l by (cases curve; cases "tl curve") auto
  ultimately have "curve = [Fin 1, Fin 2]"
    by simp
  with c n s show ?thesis
    by (simp add: rows_def example_library_contract)
qed

subsection \<open>C9: calling twice\<close>

text \<open>
  The comprehension in the store computes what the comprehension on the frame at the
  address computes, and adds frames to the store.
\<close>

lemma gain_points_in_store_eq:
  "ordered_df < length s \<Longrightarrow>
   \<exists>g. gain_points_in_store L ordered_df y t sz ks s =
         (comprehension (gain_point L (s ! ordered_df) y t sz) ks, s @ g)"
proof (induction ks arbitrary: s)
  case Nil
  show ?case by simp
next
  case (Cons rows ks)
  define s1 where "s1 = s @ [head rows (s ! ordered_df)]"
  have h: "df_head rows ordered_df s = (length s, s1)"
    by (simp add: df_head_def s1_def)
  have at: "s1 ! length s = head rows (s ! ordered_df)" "s1 ! ordered_df = s ! ordered_df"
    using Cons.prems by (simp_all add: s1_def nth_append)
  have "ordered_df < length s1"
    using Cons.prems by (simp add: s1_def)
  from Cons.IH[OF this] obtain g where
    g: "gain_points_in_store L ordered_df y t sz ks s1 =
         (comprehension (gain_point L (s ! ordered_df) y t sz) ks, s1 @ g)"
    by (auto simp: at)
  show ?case
  proof (cases "py_truediv rows sz")
    case (Inl err)
    have "gain_points_in_store L ordered_df y t sz (rows # ks) s
        = (comprehension (gain_point L (s ! ordered_df) y t sz) (rows # ks), s1)"
      by (simp add: h Inl gain_point_def)
    then show ?thesis unfolding s1_def by blast
  next
    case (Inr q)
    have "gain_points_in_store L ordered_df y t sz (rows # ks) s
        = (comprehension (gain_point L (s ! ordered_df) y t sz) (rows # ks), s1 @ g)"
      by (simp add: h g at Inr gain_point_def split: sum.splits)
    also have "s1 @ g = s @ (head rows (s ! ordered_df) # g)"
      by (simp add: s1_def)
    finally show ?thesis by blast
  qed
qed

lemma cumulative_gain_in_store_eq:
  assumes "dataset < length s"
  shows "\<exists>g. cumulative_gain_in_store L dataset prediction y t min_periods steps s =
           (cumulative_gain L (s ! dataset) prediction y t min_periods steps, s @ g)"
proof -
  define sorted_df where "sorted_df = sort_values L prediction (s ! dataset)"
  define s2 where "s2 = s @ [sorted_df, sorted_df]"
  have a: "df_sort_values L prediction dataset s = (length s, s @ [sorted_df])"
    by (simp add: df_sort_values_def sorted_df_def)
  have b: "df_reset_index (length s) (s @ [sorted_df]) = (Suc (length s), s2)"
    by (simp add: df_reset_index_def s2_def)
  have at: "s2 ! Suc (length s) = sorted_df"
    by (simp add: s2_def nth_append)
  show ?thesis
  proof (cases "n_rows min_periods (int (length (s ! dataset))) steps")
    case (Inl e)
    have "cumulative_gain_in_store L dataset prediction y t min_periods steps s =
           (cumulative_gain L (s ! dataset) prediction y t min_periods steps, s2)"
      by (simp add: cumulative_gain_in_store_def cumulative_gain_def Let_def df_shape0_def a b Inl)
    then show ?thesis unfolding s2_def by blast
  next
    case (Inr ks)
    have "Suc (length s) < length s2"
      by (simp add: s2_def)
    from gain_points_in_store_eq[OF this, of L y t "int (length (s ! dataset))" ks]
    obtain g where "gain_points_in_store L (Suc (length s)) y t (int (length (s ! dataset))) ks s2 =
         (comprehension (gain_point L sorted_df y t (int (length (s ! dataset)))) ks, s2 @ g)"
      by (auto simp: at)
    then have "cumulative_gain_in_store L dataset prediction y t min_periods steps s =
           (cumulative_gain L (s ! dataset) prediction y t min_periods steps, s2 @ g)"
      by (simp add: cumulative_gain_in_store_def cumulative_gain_def Let_def df_shape0_def a b Inr
          flip: sorted_df_def)
    also have "s2 @ g = s @ (sorted_df # sorted_df # g)"
      by (simp add: s2_def)
    finally show ?thesis by blast
  qed
qed

text \<open>
  Claim C9. Two calls of \<open>cumulative_gain\<close> in a row, with the same configuration, on
  the caller's frame: the first call changes no frame that existed before it, the
  caller's frame among them, and the second call, in the store that the first has left,
  returns what the first returned.
\<close>

theorem cumulative_gain_idempotent:
  assumes "dataset < length s"
    and "cumulative_gain_in_store L dataset prediction y t min_periods steps s = (r1, s1)"
    and "cumulative_gain_in_store L dataset prediction y t min_periods steps s1 = (r2, s2)"
  shows "r2 = r1 \<and> take (length s) s1 = s \<and> s1 ! dataset = s ! dataset
    \<and> s2 ! dataset = s ! dataset"
proof -
  obtain g where 1: "r1 = cumulative_gain L (s ! dataset) prediction y t min_periods steps"
      and s1: "s1 = s @ g"
    using cumulative_gain_in_store_eq[OF assms(1), of L prediction y t min_periods steps] assms(2)
    by auto
  have d1: "dataset < length s1" and same: "s1 ! dataset = s ! dataset"
    using assms(1) by (simp_all add: s1 nth_append)
  obtain g' where 2: "r2 = cumulative_gain L (s1 ! dataset) prediction y t min_periods steps"
      and s2: "s2 = s1 @ g'"
    using cumulative_gain_in_store_eq[OF d1, of L prediction y t min_periods steps] assms(3)
    by auto
  have "s2 ! dataset = s1 ! dataset"
    using d1 by (simp add: s2 nth_append)
  moreover have "take (length s) s1 = s"
    by (simp add: s1)
  ultimately show ?thesis
    using 1 2 same by simp
qed

theorem cumulative_gain_idempotent_witness:
  "(0::nat) < length [[\<lparr>Y = 1, T = 1, score = 0\<rparr>, \<lparr>Y = 3, T = 2, score = 1\<rparr>]]
   \<and> fst (cumulative_gain_in_store example_library 0 score Y T 30 1
        [[\<lparr>Y = 1, T = 1, score = 0\<rparr>, \<lparr>Y = 3, T = 2, score = 1\<rparr>]]) = Inr [Fin 2]
   \<and> fst (cumulative_gain_in_store example_library 0 score Y T 30 1
        (snd (cumulative_gain_in_store example_library 0 score Y T 30 1
           [[\<lparr>Y = 1, T = 1, score = 0\<rparr>, \<lparr>Y = 3, T = 2, score = 1\<rparr>]]))) = Inr [Fin 2]
   \<and> snd (cumulative_gain_in_store example_library 0 score Y T 30 1
        [[\<lparr>Y = 1, T = 1, score = 0\<rparr>, \<lparr>Y = 3, T = 2, score = 1\<rparr>]]) ! 0
       = [\<lparr>Y = 1, T = 1, score = 0\<rparr>, \<lparr>Y = 3, T = 2, score = 1\<rparr>]"
proof -
  define s where "s = [[\<lparr>Y = 1, T = 1, score = 0\<rparr>, \<lparr>Y = 3, T = 2, score = 1\<rparr>]]"
  define c1 where "c1 = cumulative_gain_in_store example_library 0 score Y T 30 1 s"
  define c2 where "c2 = cumulative_gain_in_store example_library 0 score Y T 30 1 (snd c1)"
  have 0: "0 < length s"
    by (simp add: s_def)
  have 1: "cumulative_gain_in_store example_library 0 score Y T 30 1 s = (fst c1, snd c1)"
    by (simp add: c1_def)
  have 2: "cumulative_gain_in_store example_library 0 score Y T 30 1 (snd c1) = (fst c2, snd c2)"
    by (simp add: c2_def)
  obtain g where "c1 = (cumulative_gain example_library (s ! 0) score Y T 30 1, s @ g)"
    using cumulative_gain_in_store_eq[OF 0, of example_library score Y T 30 1]
    by (auto simp: c1_def)
  then have "fst c1 = Inr [Fin 2]"
    using two_rows_curves(1)[OF example_library_contract] by (simp add: s_def)
  with cumulative_gain_idempotent [OF 0 1 2] show ?thesis
    by (simp add: c1_def c2_def s_def)
qed

end
